theory Spec2Isabelle
  imports Complex_Main "HOL-Library.Sublist"
begin

section \<open>Strings, errors and the external capabilities\<close>

text \<open>
  A Python \<open>str\<close> is a sequence of Unicode code points; it is modelled as the list of
  its code points, so that \<open>length\<close>, slicing and comparison count what Python counts
  (the fallback sentence of the program contains the code point U+2019, which is one
  character of a Python string). \<open>ustr\<close> turns an ASCII literal into such a string.
\<close>

type_synonym ustring = "nat list"

definition ustr :: "string \<Rightarrow> ustring" where
  "ustr s = map of_char s"

text \<open>
  The exceptions the modelled code can raise: \<open>RuntimeError\<close> is what the tensor
  library raises for the arg-max of an empty tensor, \<open>IndexError\<close> is Python's list
  index out of range, \<open>TypeError\<close> stands for the use of \<open>None\<close> where a
  document, a section list or a query is needed, and \<open>ValueError\<close> is raised by
  \<open>load_document\<close> itself.
\<close>

datatype error = RuntimeError | IndexError | TypeError | ValueError

text \<open>
  The models, the file readers and Python's \<open>str.lower\<close> are not code of the
  repository. They are parameters of every function that uses them:
  \<^item> \<open>embedder\<close>: \<open>embedder.encode\<close> on one string (on a list of strings it is applied
    to each element);
  \<^item> \<open>cos_sim\<close>: \<open>util.cos_sim\<close> of two embeddings, as a real number (rounding of
    floating-point numbers is not modelled);
  \<^item> \<open>qa_model\<close>: the question-answering pipeline, from the question, the context and
    the optional \<open>max_answer_len\<close> to the \<open>answer\<close> field of its result;
  \<^item> \<open>str_lower\<close>: \<open>str.lower\<close>, whose Unicode tables are not part of the program;
  \<^item> \<open>read_text\<close>: the content of the text file at a path;
  \<^item> \<open>pdf_pages\<close>: the text of each page of the PDF file at a path.
  A failure of one of these capabilities is not modelled, and neither is logging, which
  never influences a returned value.
\<close>

record 'v caps =
  embedder :: "ustring \<Rightarrow> 'v"
  cos_sim :: "'v \<Rightarrow> 'v \<Rightarrow> real"
  qa_model :: "ustring \<Rightarrow> ustring \<Rightarrow> nat option \<Rightarrow> ustring"
  str_lower :: "ustring \<Rightarrow> ustring"
  read_text :: "ustring \<Rightarrow> ustring"
  pdf_pages :: "ustring \<Rightarrow> ustring list"

text \<open>\<open>str.lower\<close> on a string of ASCII characters, for concrete evaluations.\<close>

definition ascii_lower :: "ustring \<Rightarrow> ustring" where
  "ascii_lower s = map (\<lambda>c. if 65 \<le> c \<and> c \<le> 90 then c + 32 else c) s"

section \<open>Python's string operations\<close>

text \<open>The code points for which \<open>str.isspace\<close> holds.\<close>

definition isspace :: "nat \<Rightarrow> bool" where
  "isspace c \<longleftrightarrow>
     (9 \<le> c \<and> c \<le> 13) \<or> (28 \<le> c \<and> c \<le> 32) \<or> c = 133 \<or> c = 160 \<or> c = 5760 \<or>
     (8192 \<le> c \<and> c \<le> 8202) \<or> c = 8232 \<or> c = 8233 \<or> c = 8239 \<or> c = 8287 \<or>
     c = 12288"

text \<open>
  \<open>s.split()\<close> without a separator: the maximal runs of characters that are not
  white space, in order. \<open>split_ws_aux\<close> carries the current word reversed.
\<close>

fun split_ws_aux :: "ustring \<Rightarrow> ustring \<Rightarrow> ustring list" where
  "split_ws_aux w [] = (if w = [] then [] else [rev w])"
| "split_ws_aux w (c # cs) =
     (if isspace c then (if w = [] then split_ws_aux [] cs else rev w # split_ws_aux [] cs)
      else split_ws_aux (c # w) cs)"

definition split_ws :: "ustring \<Rightarrow> ustring list" where
  "split_ws s = split_ws_aux [] s"

text \<open>
  \<open>text.split('\n\n')\<close>: the pieces between the occurrences of two line feeds, found
  from left to right without overlap. The result always has at least one element.
\<close>

fun split_nn_aux :: "ustring \<Rightarrow> ustring \<Rightarrow> ustring list" where
  "split_nn_aux w [] = [rev w]"
| "split_nn_aux w [c] = [rev (c # w)]"
| "split_nn_aux w (c # d # cs) =
     (if c = 10 \<and> d = 10 then rev w # split_nn_aux [] cs
      else split_nn_aux (c # w) (d # cs))"

definition split_nn :: "ustring \<Rightarrow> ustring list" where
  "split_nn s = split_nn_aux [] s"

text \<open>\<open>s.endswith(suf)\<close>.\<close>

definition endswith :: "ustring \<Rightarrow> ustring \<Rightarrow> bool" where
  "endswith s suf \<longleftrightarrow>
     length suf \<le> length s \<and> drop (length s - length suf) s = suf"

section \<open>The relevance resolver\<close>

text \<open>
  \<open>similarities.argmax().item()\<close>: the index of the first maximal value, as the tensor
  library documents it; the arg-max of an empty tensor raises. \<open>argmax_aux best bv i xs\<close>
  scans \<open>xs\<close>, whose first element has index \<open>i\<close>, with the best index and value so far.
\<close>

fun argmax_aux :: "nat \<Rightarrow> real \<Rightarrow> nat \<Rightarrow> real list \<Rightarrow> nat" where
  "argmax_aux best bv i [] = best"
| "argmax_aux best bv i (x # xs) =
     (if bv < x then argmax_aux i x (Suc i) xs else argmax_aux best bv (Suc i) xs)"

fun argmax :: "real list \<Rightarrow> error + nat" where
  "argmax [] = Inl RuntimeError"
| "argmax (x # xs) = Inr (argmax_aux 0 x 1 xs)"

definition stopwords :: "ustring set" where
  "stopwords = set (map ustr
     [''and'', ''the'', ''is'', ''for'', ''to'', ''a'', ''an'', ''of'', ''in'', ''on'', ''at'',
      ''with'', ''by'', ''it'', ''as'', ''so'', ''what''])"

text \<open>The string returned when neither search finds a section.\<close>

definition fallback_response :: ustring where
  "fallback_response =
     ustr ''I don'' @ [8217] @ ustr ''t have enough information to answer that.''"

definition SIMILARITY_THRESHOLD :: real where
  "SIMILARITY_THRESHOLD = 0.4"

text \<open>
  \<open>{word for word in s.lower().split() if word not in stopwords}\<close>, for the query and
  for each section.
\<close>

definition significant_words :: "'v caps \<Rightarrow> ustring \<Rightarrow> ustring set" where
  "significant_words c s = set (filter (\<lambda>word. word \<notin> stopwords) (split_ws (str_lower c s)))"

text \<open>
  The keyword loop over the sections: the first section that has at least two words in
  common with the query; \<open>None\<close> when the loop ends without returning.
\<close>

fun keyword_search :: "'v caps \<Rightarrow> ustring set \<Rightarrow> ustring list \<Rightarrow> ustring option" where
  "keyword_search c query_words [] = None"
| "keyword_search c query_words (section # rest) =
     (let section_words = significant_words c section;
          common_words = query_words \<inter> section_words
      in if 2 \<le> card common_words then Some section
         else keyword_search c query_words rest)"

text \<open>
  \<open>find_relevant_section(query, sections, section_embeddings)\<close> of \<open>app.py\<close>; the
  method of the same name of \<open>SupportBotAgent\<close> has the same body on the fields of the
  object.
\<close>

definition find_relevant_section ::
  "'v caps \<Rightarrow> ustring \<Rightarrow> ustring list \<Rightarrow> 'v list \<Rightarrow> error + ustring" where
  "find_relevant_section c query sects section_embs =
     (let query_embedding = embedder c query;
          similarities = map (cos_sim c query_embedding) section_embs
      in case argmax similarities of
           Inl e \<Rightarrow> Inl e
         | Inr best_idx \<Rightarrow>
             if length sects \<le> best_idx then Inl IndexError
             else
               let best_section = sects ! best_idx;
                   similarity_score = similarities ! best_idx
               in if SIMILARITY_THRESHOLD \<le> similarity_score then Inr best_section
                  else
                    (case keyword_search c (significant_words c query) sects of
                       Some section \<Rightarrow> Inr section
                     | None \<Rightarrow> Inr fallback_response))"

section \<open>The session of \<open>app.py\<close>\<close>

text \<open>
  The state dictionary. Its \<open>mode\<close> entry only ever holds one of three strings, and
  the speakers of the chat history are the strings \<open>Bot\<close> and \<open>User\<close>. An entry
  that holds \<open>None\<close> in the initial state is an \<open>option\<close>.
\<close>

datatype mode = waiting_for_upload | waiting_for_query | waiting_for_feedback

datatype speaker = Bot | User

record 'v state =
  document_text :: "ustring option"
  sections :: "ustring list option"
  section_embeddings :: "'v list option"
  current_query :: "ustring option"
  feedback_count :: int
  mode :: mode
  chat_history :: "(speaker \<times> ustring) list"
  last_answer :: "ustring option"

definition initial_state :: "'v state" where
  "initial_state =
     \<lparr>document_text = None, sections = None, section_embeddings = None,
      current_query = None, feedback_count = 0, mode = waiting_for_upload,
      chat_history = [(Bot, ustr ''Please upload a PDF or TXT file to start.'')],
      last_answer = None\<rparr>"

text \<open>
  A call of the question-answering model: the question, the context and the
  \<open>max_answer_len\<close> argument when one is passed. Every function that can call the model
  returns the list of the calls it made, in order, next to its result.
\<close>

type_synonym qa_call = "ustring \<times> ustring \<times> nat option"

text \<open>\<open>extract_text_from_pdf\<close>: the text of every page followed by a line feed.\<close>

definition extract_text_from_pdf :: "'v caps \<Rightarrow> ustring \<Rightarrow> ustring" where
  "extract_text_from_pdf c file_path = concat (map (\<lambda>page. page @ [10]) (pdf_pages c file_path))"

text \<open>
  \<open>process_file(file, state)\<close>. The argument is \<open>None\<close> or the name of the uploaded
  file. The first component of the result is the chat that is returned, the second the
  state. \<open>install_document\<close> is the part after the text has been read.
\<close>

definition install_document ::
  "'v caps \<Rightarrow> ustring \<Rightarrow> 'v state \<Rightarrow> (speaker \<times> ustring) list \<times> 'v state" where
  "install_document c text st =
     (let sects = split_nn text;
          section_embs = map (embedder c) sects;
          st' = st\<lparr>document_text := Some text, sections := Some sects,
                   section_embeddings := Some section_embs, current_query := None,
                   feedback_count := 0, mode := waiting_for_query,
                   chat_history := [(Bot, ustr ''File processed. You can now ask questions.'')]\<rparr>
      in (chat_history st', st'))"

definition process_file ::
  "'v caps \<Rightarrow> ustring option \<Rightarrow> 'v state \<Rightarrow> (speaker \<times> ustring) list \<times> 'v state" where
  "process_file c file st =
     (case file of
        None \<Rightarrow> ([(Bot, ustr ''Please upload a file.'')], st)
      | Some file_path \<Rightarrow>
          if endswith (str_lower c file_path) (ustr ''.pdf'')
          then install_document c (extract_text_from_pdf c file_path) st
          else if endswith (str_lower c file_path) (ustr ''.txt'')
          then install_document c (read_text c file_path) st
          else ([(Bot, ustr ''Unsupported file format. Please upload a PDF or TXT file.'')], st))"

text \<open>\<open>state['chat_history'].append(entry)\<close>.\<close>

definition say :: "speaker \<times> ustring \<Rightarrow> 'v state \<Rightarrow> 'v state" where
  "say entry st = st\<lparr>chat_history := chat_history st @ [entry]\<rparr>"

definition feedback_prompt :: ustring where
  "feedback_prompt = [10] @ ustr ''Please provide feedback: good, too vague, not helpful.''"

definition more_detail_suffix :: ustring where
  "more_detail_suffix = ustr '' Please provide more detailed information with examples.''"

text \<open>
  The text \<open>f"{answer}\n\n(More details:\n{context[:500]}...)"\<close>; formatting \<open>None\<close>
  gives the word \<open>None\<close>.
\<close>

definition format_opt :: "ustring option \<Rightarrow> ustring" where
  "format_opt a = (case a of None \<Rightarrow> ustr ''None'' | Some s \<Rightarrow> s)"

definition with_more_details :: "ustring \<Rightarrow> ustring \<Rightarrow> ustring" where
  "with_more_details answer context =
     answer @ [10, 10] @ ustr ''(More details:'' @ [10] @ take 500 context @ ustr ''...)''"

text \<open>
  The resolver on the document of the state; a state without sections or embeddings
  (\<open>None\<close>) cannot be searched.
\<close>

definition resolve_in_state :: "'v caps \<Rightarrow> ustring \<Rightarrow> 'v state \<Rightarrow> error + ustring" where
  "resolve_in_state c query st =
     (case (sections st, section_embeddings st) of
        (Some sects, Some section_embs) \<Rightarrow> find_relevant_section c query sects section_embs
      | _ \<Rightarrow> Inl TypeError)"

text \<open>
  \<open>handle_input(user_input, state)\<close>. The chat history that the function returns is the
  \<open>chat_history\<close> entry of the returned state. The three definitions are the three
  branches on the mode.
\<close>

definition handle_query ::
  "'v caps \<Rightarrow> ustring \<Rightarrow> 'v state \<Rightarrow> error + ('v state \<times> qa_call list)" where
  "handle_query c user_input st =
     (let query = user_input;
          st1 = st\<lparr>current_query := Some query, feedback_count := 0\<rparr>
      in case resolve_in_state c query st1 of
           Inl e \<Rightarrow> Inl e
         | Inr context \<Rightarrow>
             let (answer, calls) =
                   (if context = fallback_response then (context, [])
                    else (qa_model c query context None, [(query, context, None)]));
                 st2 = st1\<lparr>last_answer := Some answer, mode := waiting_for_feedback\<rparr>;
                 st3 = say (User, query) st2;
                 st4 = say (Bot, ustr ''Answer: '' @ answer @ feedback_prompt) st3
             in Inr (st4, calls))"

definition handle_feedback ::
  "'v caps \<Rightarrow> ustring \<Rightarrow> 'v state \<Rightarrow> error + ('v state \<times> qa_call list)" where
  "handle_feedback c user_input st =
     (let feedback = str_lower c user_input;
          st1 = say (User, feedback) st
      in if feedback = ustr ''good'' \<or> 2 \<le> feedback_count st1 then
           let st2 = st1\<lparr>mode := waiting_for_query\<rparr>
           in if feedback = ustr ''good''
              then Inr (say (Bot, ustr ''Thank you for your feedback. You can ask another question.'') st2, [])
              else Inr (say (Bot, ustr ''Maximum feedback iterations reached. You can ask another question.'') st2, [])
         else
           (case current_query st1 of
              None \<Rightarrow> Inl TypeError
            | Some query \<Rightarrow>
                (case resolve_in_state c query st1 of
                   Inl e \<Rightarrow> Inl e
                 | Inr context \<Rightarrow>
                     let finish = (\<lambda>adjusted_answer calls.
                           let st2 = st1\<lparr>last_answer := Some adjusted_answer,
                                          feedback_count := feedback_count st1 + 1\<rparr>
                           in Inr (say (Bot, ustr ''Updated answer: '' @ adjusted_answer @ feedback_prompt) st2,
                                   calls))
                     in if feedback = ustr ''too vague'' then
                          finish (with_more_details (format_opt (last_answer st1)) context) []
                        else if feedback = ustr ''not helpful'' then
                          finish (qa_model c (query @ more_detail_suffix) context None)
                                 [(query @ more_detail_suffix, context, None)]
                        else
                          Inr (say (Bot, ustr ''Please provide valid feedback: good, too vague, not helpful.'') st1,
                               []))))"

definition handle_input ::
  "'v caps \<Rightarrow> ustring \<Rightarrow> 'v state \<Rightarrow> error + ('v state \<times> qa_call list)" where
  "handle_input c user_input st =
     (case mode st of
        waiting_for_upload \<Rightarrow> Inr (say (Bot, ustr ''Please upload a file first.'') st, [])
      | waiting_for_query \<Rightarrow> handle_query c user_input st
      | waiting_for_feedback \<Rightarrow> handle_feedback c user_input st)"

text \<open>
  The states a session can be in: the initial state, and every state that an upload or
  an input that returns leads to.
\<close>

inductive reachable :: "'v caps \<Rightarrow> 'v state \<Rightarrow> bool" for c :: "'v caps" where
  reachable_init: "reachable c initial_state"
| reachable_upload: "reachable c st \<Longrightarrow> reachable c (snd (process_file c file st))"
| reachable_input:
    "reachable c st \<Longrightarrow> handle_input c user_input st = Inr (st', calls) \<Longrightarrow> reachable c st'"

section \<open>The class \<open>SupportBotAgent\<close>\<close>

text \<open>
  The fields of the object that are data; its two models are the capabilities. The
  methods are modelled as their text reads; the file as it stands is rejected by the
  Python compiler, since the docstring of \<open>adjust_response\<close> is indented deeper than
  the statements after it.
\<close>

record 'v agent =
  self_document_text :: ustring
  self_sections :: "ustring list"
  self_section_embeddings :: "'v list"

definition load_document :: "'v caps \<Rightarrow> ustring \<Rightarrow> error + ustring" where
  "load_document c path =
     (if endswith (str_lower c path) (ustr ''.txt'') then Inr (read_text c path)
      else if endswith (str_lower c path) (ustr ''.pdf'')
      then Inr (concat (map (\<lambda>page. page @ [10]) (pdf_pages c path)))
      else Inl ValueError)"

definition new_agent :: "'v caps \<Rightarrow> ustring \<Rightarrow> error + 'v agent" where
  "new_agent c document_path =
     (case load_document c document_path of
        Inl e \<Rightarrow> Inl e
      | Inr text \<Rightarrow>
          Inr \<lparr>self_document_text = text, self_sections = split_nn text,
               self_section_embeddings = map (embedder c) (split_nn text)\<rparr>)"

definition agent_find_relevant_section :: "'v caps \<Rightarrow> 'v agent \<Rightarrow> ustring \<Rightarrow> error + ustring" where
  "agent_find_relevant_section c self query =
     find_relevant_section c query (self_sections self) (self_section_embeddings self)"

text \<open>\<open>answer_query\<close>: \<open>not context\<close> holds for the empty string only.\<close>

definition answer_query ::
  "'v caps \<Rightarrow> 'v agent \<Rightarrow> ustring \<Rightarrow> error + (ustring \<times> qa_call list)" where
  "answer_query c self query =
     (case agent_find_relevant_section c self query of
        Inl e \<Rightarrow> Inl e
      | Inr context \<Rightarrow>
          if context = [] then Inr (fallback_response, [])
          else Inr (qa_model c query context (Some 50), [(query, context, Some 50)]))"

definition adjust_response ::
  "'v caps \<Rightarrow> 'v agent \<Rightarrow> ustring \<Rightarrow> ustring \<Rightarrow> ustring \<Rightarrow> error + (ustring \<times> qa_call list)" where
  "adjust_response c self query response feedback =
     (if feedback = ustr ''too vague'' then
        (case agent_find_relevant_section c self query of
           Inl e \<Rightarrow> Inl e
         | Inr context \<Rightarrow> Inr (with_more_details response context, []))
      else if feedback = ustr ''not helpful'' then
        answer_query c self (query @ more_detail_suffix)
      else Inr (response, []))"

section \<open>A small document for concrete evaluations\<close>

text \<open>
  Three sections, capabilities whose embedding of a text is the text itself and whose
  similarity is a given table, and a question-answering model that answers with the
  first eight characters of the context.
\<close>

definition sec0 :: ustring where "sec0 = ustr ''please provide a receipt''"
definition sec1 :: ustring where "sec1 = ustr ''shipping does matter''"
definition sec2 :: ustring where "sec2 = ustr ''how long does shipping take''"

definition demo_text :: ustring where
  "demo_text = sec0 @ [10, 10] @ sec1 @ [10, 10] @ sec2"

definition demo_caps :: "(ustring \<Rightarrow> ustring \<Rightarrow> real) \<Rightarrow> ustring caps" where
  "demo_caps sim =
     \<lparr>embedder = (\<lambda>s. s), cos_sim = sim, qa_model = (\<lambda>question context m. take 8 context),
      str_lower = ascii_lower, read_text = (\<lambda>path. demo_text), pdf_pages = (\<lambda>path. [])\<rparr>"

definition low_sim :: "ustring \<Rightarrow> ustring \<Rightarrow> real" where
  "low_sim q s = 0.1"

definition tie_sim :: "ustring \<Rightarrow> ustring \<Rightarrow> real" where
  "tie_sim q s = (if s = sec0 then 0.5 else 0.9)"

definition demo_agent :: "ustring agent" where
  "demo_agent =
     \<lparr>self_document_text = demo_text, self_sections = [sec0, sec1, sec2],
      self_section_embeddings = [sec0, sec1, sec2]\<rparr>"

definition q_shipping :: ustring where "q_shipping = ustr ''How long does shipping take''"
definition q_parcel :: ustring where "q_parcel = ustr ''where is my parcel''"

text \<open>
  A session on the demonstration document: the file is uploaded, a question is asked,
  and feedback follows. \<open>submit\<close> hands one input to \<open>handle_input\<close> and keeps the
  state; an input whose handling raises leaves the state as it is.
\<close>

definition submit :: "'v caps \<Rightarrow> ustring \<Rightarrow> 'v state \<Rightarrow> 'v state" where
  "submit c user_input st =
     (case handle_input c user_input st of
        Inl e \<Rightarrow> st
      | Inr (st', calls) \<Rightarrow> st')"

definition demo_loaded :: "ustring state" where
  "demo_loaded = snd (process_file (demo_caps low_sim) (Some (ustr ''faq.txt'')) initial_state)"

definition demo_asked :: "ustring state" where
  "demo_asked = submit (demo_caps low_sim) q_shipping demo_loaded"

definition demo_refined_once :: "ustring state" where
  "demo_refined_once = submit (demo_caps low_sim) (ustr ''too vague'') demo_asked"

definition demo_refined_twice :: "ustring state" where
  "demo_refined_twice = submit (demo_caps low_sim) (ustr ''Not Helpful'') demo_refined_once"

definition demo_capped :: "ustring state" where
  "demo_capped = submit (demo_caps low_sim) (ustr ''too vague'') demo_refined_twice"

definition demo_invalid_early :: "ustring state" where
  "demo_invalid_early = submit (demo_caps low_sim) (ustr ''maybe'') demo_asked"

definition demo_invalid_late :: "ustring state" where
  "demo_invalid_late = submit (demo_caps low_sim) (ustr ''maybe'') demo_refined_twice"

text \<open>
  A second document, whose first section shares three words with the question about
  the price, two of them stop words, and a session in which a question matches nothing
  and the answer is then called not helpful.
\<close>

definition sec_price_high :: ustring where "sec_price_high = ustr ''the price is high''"
definition sec_price_list :: ustring where "sec_price_list = ustr ''Shipping  price list''"
definition q_price :: ustring where "q_price = ustr ''What is the price of shipping''"
definition q_what_price :: ustring where "q_what_price = ustr ''what is the price''"

definition demo_unanswered :: "ustring state" where
  "demo_unanswered = submit (demo_caps low_sim) q_parcel demo_loaded"

definition demo_unanswered_refined :: "ustring state" where
  "demo_unanswered_refined = submit (demo_caps low_sim) (ustr ''not helpful'') demo_unanswered"

text \<open>
  A state that waits for feedback on a document whose only section has 600 characters,
  with a similarity above the threshold.
\<close>

definition high_sim :: "ustring \<Rightarrow> ustring \<Rightarrow> real" where
  "high_sim q s = 0.9"

definition long_section :: ustring where
  "long_section = replicate 600 97"

definition demo_long :: "ustring state" where
  "demo_long =
     \<lparr>document_text = Some long_section, sections = Some [long_section],
      section_embeddings = Some [long_section], current_query = Some q_parcel,
      feedback_count = 0, mode = waiting_for_feedback, chat_history = [],
      last_answer = Some (take 8 long_section)\<rparr>"

section \<open>The invariant of the session\<close>

text \<open>
  A state has a document when its sections are a non-empty list with one embedding per
  section. The invariant of the session: the feedback counter is between 0 and 2, a
  state that is past the upload has a document, and a state that waits for feedback
  has a current query and a last answer.
\<close>

definition has_document :: "'v state \<Rightarrow> bool" where
  "has_document st =
     (case (sections st, section_embeddings st) of
        (Some sects, Some section_embs) \<Rightarrow> sects \<noteq> [] \<and> length section_embs = length sects
      | _ \<Rightarrow> False)"

definition session_inv :: "'v state \<Rightarrow> bool" where
  "session_inv st \<longleftrightarrow>
     0 \<le> feedback_count st \<and> feedback_count st \<le> 2 \<and>
     (mode st \<noteq> waiting_for_upload \<longrightarrow> has_document st) \<and>
     (mode st = waiting_for_feedback \<longrightarrow> current_query st \<noteq> None \<and> last_answer st \<noteq> None)"

section \<open>Properties of the resolver\<close>

subsection \<open>The arg-max is the first index of a maximal similarity\<close>

lemma argmax_aux_first_max:
  assumes "best < length ys" and "ys ! best = bv"
    and "\<forall>j<length ys. ys ! j \<le> bv" and "\<forall>j<best. ys ! j < bv"
  shows "argmax_aux best bv (length ys) xs < length (ys @ xs) \<and>
         (\<forall>j<length (ys @ xs). (ys @ xs) ! j \<le> (ys @ xs) ! argmax_aux best bv (length ys) xs) \<and>
         (\<forall>j<argmax_aux best bv (length ys) xs.
             (ys @ xs) ! j < (ys @ xs) ! argmax_aux best bv (length ys) xs)"
  using assms
proof (induction xs arbitrary: best bv ys)
  case Nil
  then show ?case by simp
next
  case (Cons x xs)
  let ?zs = "ys @ [x]"
  show ?case
  proof (cases "bv < x")
    case True
    have a1: "length ys < length ?zs" by simp
    have a2: "?zs ! length ys = x" by simp
    have a3: "\<forall>j<length ?zs. ?zs ! j \<le> x"
      using Cons.prems(3) True by (auto simp: nth_append less_Suc_eq)
    have a4: "\<forall>j<length ys. ?zs ! j < x"
      using Cons.prems(3) True by (auto simp: nth_append)
    from Cons.IH [OF a1 a2 a3 a4] True show ?thesis by simp
  next
    case False
    have b1: "best < length ?zs" using Cons.prems(1) by simp
    have b2: "?zs ! best = bv" using Cons.prems(1,2) by (simp add: nth_append)
    have b3: "\<forall>j<length ?zs. ?zs ! j \<le> bv"
      using Cons.prems(3) False by (auto simp: nth_append less_Suc_eq)
    have b4: "\<forall>j<best. ?zs ! j < bv"
      using Cons.prems(1,4) by (auto simp: nth_append)
    from Cons.IH [OF b1 b2 b3 b4] False show ?thesis by simp
  qed
qed

lemma argmax_first_max:
  assumes "xs \<noteq> []"
  shows "\<exists>r. argmax xs = Inr r \<and> r < length xs \<and> (\<forall>j<length xs. xs ! j \<le> xs ! r) \<and>
             (\<forall>j<r. xs ! j < xs ! r)"
proof -
  from assms obtain x rest where xs: "xs = x # rest" by (cases xs) auto
  have "argmax_aux 0 x (length [x]) rest < length ([x] @ rest) \<and>
        (\<forall>j<length ([x] @ rest). ([x] @ rest) ! j \<le> ([x] @ rest) ! argmax_aux 0 x (length [x]) rest) \<and>
        (\<forall>j<argmax_aux 0 x (length [x]) rest.
            ([x] @ rest) ! j < ([x] @ rest) ! argmax_aux 0 x (length [x]) rest)"
    by (rule argmax_aux_first_max) auto
  then show ?thesis using xs by simp
qed

lemma first_max_unique:
  fixes xs :: "real list"
  assumes "i < length xs" and "\<forall>j<length xs. xs ! j \<le> xs ! i" and "\<forall>j<i. xs ! j < xs ! i"
    and "r < length xs" and "\<forall>j<length xs. xs ! j \<le> xs ! r" and "\<forall>j<r. xs ! j < xs ! r"
  shows "r = i"
proof (rule ccontr)
  assume "r \<noteq> i"
  then consider "r < i" | "i < r" by linarith
  then show False
  proof cases
    case 1
    with assms(3) have "xs ! r < xs ! i" by simp
    moreover from assms(1,5) have "xs ! i \<le> xs ! r" by simp
    ultimately show False by simp
  next
    case 2
    with assms(6) have "xs ! i < xs ! r" by simp
    moreover from assms(4,2) have "xs ! r \<le> xs ! i" by simp
    ultimately show False by simp
  qed
qed

subsection \<open>The keyword loop returns the first match\<close>

lemma keyword_search_mem: "keyword_search c qw ss = Some s \<Longrightarrow> s \<in> set ss"
  by (induction ss) (auto simp: Let_def split: if_splits)

lemma keyword_search_first:
  assumes "i < length ss" and "2 \<le> card (qw \<inter> significant_words c (ss ! i))"
    and "\<forall>j<i. card (qw \<inter> significant_words c (ss ! j)) < 2"
  shows "keyword_search c qw ss = Some (ss ! i)"
  using assms
proof (induction ss arbitrary: i)
  case Nil
  then show ?case by simp
next
  case (Cons s ss)
  show ?case
  proof (cases i)
    case 0
    with Cons.prems show ?thesis by (simp add: Let_def)
  next
    case (Suc k)
    from Cons.prems(3) Suc have "card (qw \<inter> significant_words c s) < 2" by auto
    moreover have "keyword_search c qw ss = Some (ss ! k)"
    proof (rule Cons.IH)
      show "k < length ss" using Cons.prems(1) Suc by simp
      show "2 \<le> card (qw \<inter> significant_words c (ss ! k))" using Cons.prems(2) Suc by simp
      show "\<forall>j<k. card (qw \<inter> significant_words c (ss ! j)) < 2"
        using Cons.prems(3) Suc by auto
    qed
    ultimately show ?thesis using Suc by (simp add: Let_def)
  qed
qed

lemma keyword_search_none:
  "keyword_search c qw ss = None \<longleftrightarrow> (\<forall>s\<in>set ss. card (qw \<inter> significant_words c s) < 2)"
  by (induction ss) (auto simp: Let_def)

subsection \<open>The resolver on a non-empty section sequence with a parallel index\<close>

lemma find_relevant_section_cases:
  assumes "section_embs \<noteq> []" and "length section_embs = length sects"
  shows "\<exists>r. r < length sects \<and>
           (\<forall>j<length sects. cos_sim c (embedder c query) (section_embs ! j)
                                \<le> cos_sim c (embedder c query) (section_embs ! r)) \<and>
           (\<forall>j<r. cos_sim c (embedder c query) (section_embs ! j)
                     < cos_sim c (embedder c query) (section_embs ! r)) \<and>
           find_relevant_section c query sects section_embs =
             (if SIMILARITY_THRESHOLD \<le> cos_sim c (embedder c query) (section_embs ! r)
              then Inr (sects ! r)
              else case keyword_search c (significant_words c query) sects of
                     Some section \<Rightarrow> Inr section | None \<Rightarrow> Inr fallback_response)"
proof -
  let ?sims = "map (cos_sim c (embedder c query)) section_embs"
  from assms(1) have "?sims \<noteq> []" by simp
  from argmax_first_max [OF this] obtain r where
    r: "argmax ?sims = Inr r" "r < length ?sims" "\<forall>j<length ?sims. ?sims ! j \<le> ?sims ! r"
       "\<forall>j<r. ?sims ! j < ?sims ! r" by blast
  from r(2) assms(2) have rl: "r < length sects" "r < length section_embs" by simp_all
  have le: "\<forall>j<length sects. cos_sim c (embedder c query) (section_embs ! j)
                                \<le> cos_sim c (embedder c query) (section_embs ! r)"
    using r(3) rl assms(2) by simp
  have lt: "\<forall>j<r. cos_sim c (embedder c query) (section_embs ! j)
                     < cos_sim c (embedder c query) (section_embs ! r)"
    using r(4) rl by simp
  have "find_relevant_section c query sects section_embs =
             (if SIMILARITY_THRESHOLD \<le> cos_sim c (embedder c query) (section_embs ! r)
              then Inr (sects ! r)
              else case keyword_search c (significant_words c query) sects of
                     Some section \<Rightarrow> Inr section | None \<Rightarrow> Inr fallback_response)"
    using r(1) rl by (simp add: find_relevant_section_def Let_def)
  with rl(1) le lt show ?thesis by blast
qed

text \<open>
  Claim C1. For every query and every non-empty section sequence with its parallel
  embedding index: when the largest similarity between the query and a section is at
  least 0.4, \<open>find_relevant_section\<close> returns the section at the index of that
  largest similarity, and when several indices attain it, the section at the lowest of
  them. The index \<open>i\<close> below is any index whose similarity is maximal and strictly
  above the similarity of every earlier index.
\<close>

theorem semantic_tier_first_argmax:
  assumes "length section_embs = length sects" and "i < length sects"
    and "\<forall>j<length sects. cos_sim c (embedder c query) (section_embs ! j)
                            \<le> cos_sim c (embedder c query) (section_embs ! i)"
    and "\<forall>j<i. cos_sim c (embedder c query) (section_embs ! j)
                 < cos_sim c (embedder c query) (section_embs ! i)"
    and "0.4 \<le> cos_sim c (embedder c query) (section_embs ! i)"
  shows "find_relevant_section c query sects section_embs = Inr (sects ! i)"
proof -
  let ?sims = "map (cos_sim c (embedder c query)) section_embs"
  from assms(1,2) have ne: "section_embs \<noteq> []" by auto
  from find_relevant_section_cases [OF ne assms(1), of c query] obtain r where
    r: "r < length sects"
       "\<forall>j<length sects. cos_sim c (embedder c query) (section_embs ! j)
                                \<le> cos_sim c (embedder c query) (section_embs ! r)"
       "\<forall>j<r. cos_sim c (embedder c query) (section_embs ! j)
                     < cos_sim c (embedder c query) (section_embs ! r)"
       "find_relevant_section c query sects section_embs =
             (if SIMILARITY_THRESHOLD \<le> cos_sim c (embedder c query) (section_embs ! r)
              then Inr (sects ! r)
              else case keyword_search c (significant_words c query) sects of
                     Some section \<Rightarrow> Inr section | None \<Rightarrow> Inr fallback_response)"
    by blast
  have "r = i"
  proof (rule first_max_unique [of i ?sims r])
    show "i < length ?sims" using assms(1,2) by simp
    show "\<forall>j<length ?sims. ?sims ! j \<le> ?sims ! i" using assms(1,2,3) by simp
    show "\<forall>j<i. ?sims ! j < ?sims ! i" using assms(1,2,4) by simp
    show "r < length ?sims" using r(1) assms(1) by simp
    show "\<forall>j<length ?sims. ?sims ! j \<le> ?sims ! r" using r(1,2) assms(1) by simp
    show "\<forall>j<r. ?sims ! j < ?sims ! r" using r(1,3) assms(1) by simp
  qed
  with r(4) assms(5) show ?thesis by (simp add: SIMILARITY_THRESHOLD_def)
qed

lemma below_threshold:
  assumes "length section_embs = length sects" and "sects \<noteq> []"
    and "\<forall>j<length sects. cos_sim c (embedder c query) (section_embs ! j) < 0.4"
  shows "find_relevant_section c query sects section_embs =
           (case keyword_search c (significant_words c query) sects of
              Some section \<Rightarrow> Inr section | None \<Rightarrow> Inr fallback_response)"
proof -
  from assms(1,2) have ne: "section_embs \<noteq> []" by auto
  from find_relevant_section_cases [OF ne assms(1), of c query] obtain r where
    r: "r < length sects"
       "find_relevant_section c query sects section_embs =
             (if SIMILARITY_THRESHOLD \<le> cos_sim c (embedder c query) (section_embs ! r)
              then Inr (sects ! r)
              else case keyword_search c (significant_words c query) sects of
                     Some section \<Rightarrow> Inr section | None \<Rightarrow> Inr fallback_response)"
    by blast
  from assms(3) r(1) have "\<not> SIMILARITY_THRESHOLD \<le> cos_sim c (embedder c query) (section_embs ! r)"
    by (auto simp: SIMILARITY_THRESHOLD_def)
  with r(2) show ?thesis by simp
qed

subsection \<open>What the words of a text are\<close>

lemma stopwords_listed:
  "stopwords =
     {ustr ''and'', ustr ''the'', ustr ''is'', ustr ''for'', ustr ''to'', ustr ''a'', ustr ''an'',
      ustr ''of'', ustr ''in'', ustr ''on'', ustr ''at'', ustr ''with'', ustr ''by'', ustr ''it'',
      ustr ''as'', ustr ''so'', ustr ''what''}"
  by (simp add: stopwords_def)

lemma significant_words_filtered:
  "significant_words c s =
     {w \<in> set (split_ws (str_lower c s)).
        w \<notin> {ustr ''and'', ustr ''the'', ustr ''is'', ustr ''for'', ustr ''to'', ustr ''a'', ustr ''an'',
              ustr ''of'', ustr ''in'', ustr ''on'', ustr ''at'', ustr ''with'', ustr ''by'', ustr ''it'',
              ustr ''as'', ustr ''so'', ustr ''what''}}"
  unfolding significant_words_def stopwords_listed by (rule set_filter)

lemma split_ws_aux_concat:
  "concat (split_ws_aux w s) = rev w @ filter (\<lambda>ch. \<not> isspace ch) s"
  by (induction s arbitrary: w) auto

lemma split_ws_concat: "concat (split_ws s) = filter (\<lambda>ch. \<not> isspace ch) s"
  by (simp add: split_ws_def split_ws_aux_concat)

lemma split_ws_aux_words:
  assumes "\<forall>ch\<in>set w. \<not> isspace ch" and "t \<in> set (split_ws_aux w s)"
  shows "t \<noteq> [] \<and> (\<forall>ch\<in>set t. \<not> isspace ch)"
  using assms
proof (induction s arbitrary: w)
  case Nil
  then show ?case by (auto split: if_splits)
next
  case (Cons ch s)
  show ?case
  proof (cases "isspace ch")
    case True
    with Cons.prems have "t = rev w \<and> w \<noteq> [] \<or> t \<in> set (split_ws_aux [] s)"
      by (auto split: if_splits)
    then show ?thesis
    proof
      assume "t = rev w \<and> w \<noteq> []"
      with Cons.prems(1) show ?thesis by auto
    next
      assume "t \<in> set (split_ws_aux [] s)"
      with Cons.IH [of "[]"] show ?thesis by simp
    qed
  next
    case False
    with Cons.prems have "t \<in> set (split_ws_aux (ch # w) s)" by simp
    moreover from False Cons.prems(1) have "\<forall>x\<in>set (ch # w). \<not> isspace x" by simp
    ultimately show ?thesis by (rule Cons.IH [rotated])
  qed
qed

lemma split_ws_words:
  assumes "t \<in> set (split_ws s)"
  shows "t \<noteq> [] \<and> (\<forall>ch\<in>set t. \<not> isspace ch)"
  using split_ws_aux_words [of "[]" t s] assms by (simp add: split_ws_def)

text \<open>
  Claim C2. When every similarity is below 0.4, \<open>find_relevant_section\<close> returns the
  first section, in the order of the document, whose token set shares at least two
  tokens with the token set of the query; sections after it are not looked at, whatever
  their overlap. The token set of a text, \<open>tokens\<close> below, is written out: the text is
  lower-cased and split at white space, and the seventeen stop words are left out.
\<close>

theorem lexical_tier_first_match:
  fixes tokens :: "ustring \<Rightarrow> ustring set"
  assumes "tokens = (\<lambda>s. {w \<in> set (split_ws (str_lower c s)).
              w \<notin> {ustr ''and'', ustr ''the'', ustr ''is'', ustr ''for'', ustr ''to'', ustr ''a'',
                    ustr ''an'', ustr ''of'', ustr ''in'', ustr ''on'', ustr ''at'', ustr ''with'',
                    ustr ''by'', ustr ''it'', ustr ''as'', ustr ''so'', ustr ''what''}})"
    and "length section_embs = length sects" and "i < length sects"
    and "\<forall>j<length sects. cos_sim c (embedder c query) (section_embs ! j) < 0.4"
    and "2 \<le> card (tokens query \<inter> tokens (sects ! i))"
    and "\<forall>j<i. card (tokens query \<inter> tokens (sects ! j)) < 2"
  shows "find_relevant_section c query sects section_embs = Inr (sects ! i)"
proof -
  have tok: "significant_words c s = tokens s" for s
    unfolding assms(1) by (rule significant_words_filtered)
  from assms(3) have ne: "sects \<noteq> []" by auto
  have "keyword_search c (significant_words c query) sects = Some (sects ! i)"
  proof (rule keyword_search_first [OF assms(3)])
    show "2 \<le> card (significant_words c query \<inter> significant_words c (sects ! i))"
      using assms(5) by (simp add: tok)
    show "\<forall>j<i. card (significant_words c query \<inter> significant_words c (sects ! j)) < 2"
      using assms(6) by (simp add: tok)
  qed
  with below_threshold [OF assms(2) ne assms(4)] show ?thesis by simp
qed

text \<open>
  Claim C9, as the code has it. When no similarity reaches 0.4 and no section shares two
  words with the query, \<open>find_relevant_section\<close> returns one fixed string, the same on
  every such input: the sentence \<open>I don't have enough information to answer that.\<close>,
  written with the apostrophe U+2019.
\<close>

theorem sentinel_tier_fixed_string:
  assumes "length section_embs = length sects" and "sects \<noteq> []"
    and "\<forall>j<length sects. cos_sim c (embedder c query) (section_embs ! j) < 0.4"
    and "\<forall>j<length sects. card (significant_words c query \<inter> significant_words c (sects ! j)) < 2"
  shows "find_relevant_section c query sects section_embs =
           Inr (ustr ''I don'' @ [8217] @ ustr ''t have enough information to answer that.'')"
proof -
  from assms(4) have "\<forall>s\<in>set sects. card (significant_words c query \<inter> significant_words c s) < 2"
    by (auto simp: in_set_conv_nth)
  then have "keyword_search c (significant_words c query) sects = None"
    by (simp add: keyword_search_none)
  with below_threshold [OF assms(1,2,3)] show ?thesis by (simp add: fallback_response_def)
qed

text \<open>
  Claim C10. For every query and every section sequence with its parallel embedding
  index, \<open>find_relevant_section\<close> returns a string that is a section of the sequence or
  the fallback sentence; the only other outcome is the exception on the empty sequence.
\<close>

theorem resolver_result_range:
  assumes "length section_embs = length sects"
  shows "(sects = [] \<and> find_relevant_section c query sects section_embs = Inl RuntimeError) \<or>
         (\<exists>s. find_relevant_section c query sects section_embs = Inr s \<and>
              (s \<in> set sects \<or> s = fallback_response))"
proof (cases "sects = []")
  case True
  with assms show ?thesis by (simp add: find_relevant_section_def)
next
  case False
  with assms have ne: "section_embs \<noteq> []" by auto
  from find_relevant_section_cases [OF ne assms, of c query] obtain r where
    r: "r < length sects"
       "find_relevant_section c query sects section_embs =
             (if SIMILARITY_THRESHOLD \<le> cos_sim c (embedder c query) (section_embs ! r)
              then Inr (sects ! r)
              else case keyword_search c (significant_words c query) sects of
                     Some section \<Rightarrow> Inr section | None \<Rightarrow> Inr fallback_response)"
    by blast
  show ?thesis
  proof (cases "SIMILARITY_THRESHOLD \<le> cos_sim c (embedder c query) (section_embs ! r)")
    case True
    with r show ?thesis by simp
  next
    case below: False
    show ?thesis
    proof (cases "keyword_search c (significant_words c query) sects")
      case None
      with r below show ?thesis by simp
    next
      case (Some s)
      then have "s \<in> set sects" by (rule keyword_search_mem)
      with r below Some show ?thesis by simp
    qed
  qed
qed

lemma split_nn_aux_nonempty: "split_nn_aux w s \<noteq> []"
  by (induction w s rule: split_nn_aux.induct) auto

text \<open>
  Claim C8, as the code has it. On the empty section sequence \<open>find_relevant_section\<close>
  returns nothing: it raises, whatever the embedding index is. The sequence that
  \<open>text.split('\n\n')\<close> produces is never empty, so the function is not called on the
  empty sequence by the program.
\<close>

theorem empty_sections_raise:
  "(\<exists>e. find_relevant_section c query [] section_embs = Inl e) \<and> split_nn text \<noteq> []"
proof -
  have "\<exists>e. find_relevant_section c query [] section_embs = Inl e"
  proof (cases section_embs)
    case Nil
    then show ?thesis by (simp add: find_relevant_section_def)
  next
    case (Cons e es)
    then show ?thesis by (simp add: find_relevant_section_def Let_def)
  qed
  then show ?thesis by (simp add: split_nn_def split_nn_aux_nonempty)
qed


lemmas demo_defs = sec0_def sec1_def sec2_def q_shipping_def q_parcel_def ustr_def

lemma demo_caps_sel:
  "embedder (demo_caps sim) = (\<lambda>s. s)" "cos_sim (demo_caps sim) = sim"
  "qa_model (demo_caps sim) = (\<lambda>question context m. take 8 context)"
  "str_lower (demo_caps sim) = ascii_lower" "read_text (demo_caps sim) = (\<lambda>path. demo_text)"
  by (simp_all add: demo_caps_def)

lemmas words_eval = significant_words_def demo_caps_sel ascii_lower_def stopwords_def
  split_ws_def isspace_def card_insert_if

lemma overlap_shipping:
  "card (significant_words (demo_caps sim) q_shipping \<inter> significant_words (demo_caps sim) sec0) = 0"
  "card (significant_words (demo_caps sim) q_shipping \<inter> significant_words (demo_caps sim) sec1) = 2"
  "card (significant_words (demo_caps sim) q_shipping \<inter> significant_words (demo_caps sim) sec2) = 5"
  by (simp_all add: words_eval demo_defs)

lemma overlap_parcel:
  "card (significant_words (demo_caps sim) q_parcel \<inter> significant_words (demo_caps sim) sec0) = 0"
  "card (significant_words (demo_caps sim) q_parcel \<inter> significant_words (demo_caps sim) sec1) = 0"
  "card (significant_words (demo_caps sim) q_parcel \<inter> significant_words (demo_caps sim) sec2) = 0"
  by (simp_all add: words_eval demo_defs)

lemma sec_distinct: "sec0 \<noteq> sec1" "sec0 \<noteq> sec2" "sec1 \<noteq> sec2"
  by (simp_all add: demo_defs)

text \<open>
  Claim C1 on the demonstration document: the second and the third section tie at 0.9,
  and the second is returned.
\<close>

theorem semantic_tier_first_argmax_witness:
  "tie_sim q_shipping sec0 = 0.5 \<and> tie_sim q_shipping sec1 = 0.9 \<and> tie_sim q_shipping sec2 = 0.9 \<and>
   find_relevant_section (demo_caps tie_sim) q_shipping [sec0, sec1, sec2] [sec0, sec1, sec2] = Inr sec1"
proof -
  have sims: "tie_sim q_shipping sec0 = 0.5" "tie_sim q_shipping sec1 = 0.9" "tie_sim q_shipping sec2 = 0.9"
    using sec_distinct by (simp_all add: tie_sim_def)
  have h1: "length [sec0, sec1, sec2] = length [sec0, sec1, sec2]" by simp
  have h2: "(1::nat) < length [sec0, sec1, sec2]" by simp
  have h3: "\<forall>j<length [sec0, sec1, sec2].
              cos_sim (demo_caps tie_sim) (embedder (demo_caps tie_sim) q_shipping) ([sec0, sec1, sec2] ! j)
              \<le> cos_sim (demo_caps tie_sim) (embedder (demo_caps tie_sim) q_shipping) ([sec0, sec1, sec2] ! 1)"
    using sims by (auto simp: demo_caps_sel less_Suc_eq)
  have h4: "\<forall>j<1. cos_sim (demo_caps tie_sim) (embedder (demo_caps tie_sim) q_shipping) ([sec0, sec1, sec2] ! j)
              < cos_sim (demo_caps tie_sim) (embedder (demo_caps tie_sim) q_shipping) ([sec0, sec1, sec2] ! 1)"
    using sims by (simp add: demo_caps_sel)
  have h5: "0.4 \<le> cos_sim (demo_caps tie_sim) (embedder (demo_caps tie_sim) q_shipping) ([sec0, sec1, sec2] ! 1)"
    using sims by (simp add: demo_caps_sel)
  from semantic_tier_first_argmax [OF h1 h2 h3 h4 h5] sims show ?thesis by simp
qed

lemmas price_defs = sec_price_high_def sec_price_list_def q_price_def q_what_price_def ustr_def

lemma price_raw_words:
  "split_ws (str_lower (demo_caps sim) q_price) =
     [ustr ''what'', ustr ''is'', ustr ''the'', ustr ''price'', ustr ''of'', ustr ''shipping'']"
  "split_ws (str_lower (demo_caps sim) sec_price_high) =
     [ustr ''the'', ustr ''price'', ustr ''is'', ustr ''high'']"
  "split_ws (str_lower (demo_caps sim) sec_price_list) =
     [ustr ''shipping'', ustr ''price'', ustr ''list'']"
  by (simp_all add: demo_caps_sel ascii_lower_def split_ws_def isspace_def price_defs)

lemma price_words:
  "significant_words (demo_caps sim) q_price = {ustr ''price'', ustr ''shipping''}"
  "significant_words (demo_caps sim) sec_price_high = {ustr ''price'', ustr ''high''}"
  "significant_words (demo_caps sim) sec_price_list = {ustr ''shipping'', ustr ''price'', ustr ''list''}"
  "significant_words (demo_caps sim) q_what_price = {ustr ''price''}"
  by (auto simp add: words_eval price_defs)

lemma overlap_price:
  "card (significant_words (demo_caps sim) q_price \<inter> significant_words (demo_caps sim) sec_price_high) = 1"
  "card (significant_words (demo_caps sim) q_price \<inter> significant_words (demo_caps sim) sec_price_list) = 2"
  "card (significant_words (demo_caps sim) q_what_price \<inter> significant_words (demo_caps sim) sec_price_high) = 1"
  by (simp_all add: words_eval price_defs)

lemma shared_stopwords_do_not_match:
  "find_relevant_section (demo_caps low_sim) q_what_price [sec_price_high] [sec_price_high]
     = Inr fallback_response"
proof -
  have h1: "length [sec_price_high] = length [sec_price_high]" by simp
  have h2: "[sec_price_high] \<noteq> []" by simp
  have h3: "\<forall>j<length [sec_price_high].
              cos_sim (demo_caps low_sim) (embedder (demo_caps low_sim) q_what_price) ([sec_price_high] ! j) < 0.4"
    by (simp add: demo_caps_sel low_sim_def)
  have "keyword_search (demo_caps low_sim) (significant_words (demo_caps low_sim) q_what_price)
          [sec_price_high] = None"
    by (simp add: keyword_search_none overlap_price)
  with below_threshold [OF h1 h2 h3] show ?thesis by simp
qed

text \<open>
  Claim C2 on the two demonstration documents. The question about the price shares the
  three words \<open>the\<close>, \<open>is\<close> and \<open>price\<close> with the first section, but only one
  token, since two of the three are stop words; the second section shares two tokens and
  is returned. On the first document the second section shares two tokens with the
  query and is returned, although the third shares five.
\<close>

theorem lexical_tier_first_match_witness:
  "card (set (split_ws (str_lower (demo_caps low_sim) q_price)) \<inter>
         set (split_ws (str_lower (demo_caps low_sim) sec_price_high))) = 3 \<and>
   card (significant_words (demo_caps low_sim) q_price \<inter>
         significant_words (demo_caps low_sim) sec_price_high) = 1 \<and>
   find_relevant_section (demo_caps low_sim) q_price
     [sec_price_high, sec_price_list] [sec_price_high, sec_price_list] = Inr sec_price_list \<and>
   card (significant_words (demo_caps low_sim) q_shipping \<inter> significant_words (demo_caps low_sim) sec1) = 2 \<and>
   card (significant_words (demo_caps low_sim) q_shipping \<inter> significant_words (demo_caps low_sim) sec2) = 5 \<and>
   find_relevant_section (demo_caps low_sim) q_shipping [sec0, sec1, sec2] [sec0, sec1, sec2] = Inr sec1"
proof -
  have raw: "card (set (split_ws (str_lower (demo_caps low_sim) q_price)) \<inter>
         set (split_ws (str_lower (demo_caps low_sim) sec_price_high))) = 3"
    by (simp add: price_raw_words card_insert_if ustr_def)
  have a1: "length [sec_price_high, sec_price_list] = length [sec_price_high, sec_price_list]" by simp
  have a2: "(1::nat) < length [sec_price_high, sec_price_list]" by simp
  have a3: "\<forall>j<length [sec_price_high, sec_price_list].
              cos_sim (demo_caps low_sim) (embedder (demo_caps low_sim) q_price)
                ([sec_price_high, sec_price_list] ! j) < 0.4"
    by (simp add: demo_caps_sel low_sim_def)
  have a4: "2 \<le> card (significant_words (demo_caps low_sim) q_price \<inter>
                      significant_words (demo_caps low_sim) ([sec_price_high, sec_price_list] ! 1))"
    by (simp add: overlap_price)
  have a5: "\<forall>j<1. card (significant_words (demo_caps low_sim) q_price \<inter>
                      significant_words (demo_caps low_sim) ([sec_price_high, sec_price_list] ! j)) < 2"
    by (simp add: overlap_price)
  note first = lexical_tier_first_match [OF refl a1 a2 a3
      a4 [unfolded significant_words_filtered] a5 [unfolded significant_words_filtered]]
  have h1: "length [sec0, sec1, sec2] = length [sec0, sec1, sec2]" by simp
  have h2: "(1::nat) < length [sec0, sec1, sec2]" by simp
  have h3: "\<forall>j<length [sec0, sec1, sec2].
              cos_sim (demo_caps low_sim) (embedder (demo_caps low_sim) q_shipping) ([sec0, sec1, sec2] ! j) < 0.4"
    by (simp add: demo_caps_sel low_sim_def)
  have h4: "2 \<le> card (significant_words (demo_caps low_sim) q_shipping \<inter>
                      significant_words (demo_caps low_sim) ([sec0, sec1, sec2] ! 1))"
    by (simp add: overlap_shipping)
  have h5: "\<forall>j<1. card (significant_words (demo_caps low_sim) q_shipping \<inter>
                      significant_words (demo_caps low_sim) ([sec0, sec1, sec2] ! j)) < 2"
    by (simp add: overlap_shipping)
  note second = lexical_tier_first_match [OF refl h1 h2 h3
      h4 [unfolded significant_words_filtered] h5 [unfolded significant_words_filtered]]
  from raw first second show ?thesis
    by (simp add: overlap_shipping overlap_price)
qed

text \<open>Claim C9 on the demonstration document, for a query that matches nothing.\<close>

theorem sentinel_tier_fixed_string_witness:
  "find_relevant_section (demo_caps low_sim) q_parcel [sec0, sec1, sec2] [sec0, sec1, sec2] =
     Inr (ustr ''I don'' @ [8217] @ ustr ''t have enough information to answer that.'')"
proof -
  have h1: "length [sec0, sec1, sec2] = length [sec0, sec1, sec2]" by simp
  have h2: "[sec0, sec1, sec2] \<noteq> []" by simp
  have h3: "\<forall>j<length [sec0, sec1, sec2].
              cos_sim (demo_caps low_sim) (embedder (demo_caps low_sim) q_parcel) ([sec0, sec1, sec2] ! j) < 0.4"
    by (simp add: demo_caps_sel low_sim_def)
  have h4: "\<forall>j<length [sec0, sec1, sec2].
              card (significant_words (demo_caps low_sim) q_parcel \<inter>
                    significant_words (demo_caps low_sim) ([sec0, sec1, sec2] ! j)) < 2"
    by (auto simp: less_Suc_eq overlap_parcel)
  from sentinel_tier_fixed_string [OF h1 h2 h3 h4] show ?thesis .
qed

text \<open>
  The string returned there is not the sentence \<open>insufficient information to answer.\<close>
\<close>

theorem sentinel_literal_counterexample:
  "find_relevant_section (demo_caps low_sim) q_parcel [sec0, sec1, sec2] [sec0, sec1, sec2]
     \<noteq> Inr (ustr ''insufficient information to answer.'')"
proof -
  have h1: "length [sec0, sec1, sec2] = length [sec0, sec1, sec2]" by simp
  have h2: "[sec0, sec1, sec2] \<noteq> []" by simp
  have h3: "\<forall>j<length [sec0, sec1, sec2].
              cos_sim (demo_caps low_sim) (embedder (demo_caps low_sim) q_parcel) ([sec0, sec1, sec2] ! j) < 0.4"
    by (simp add: demo_caps_sel low_sim_def)
  have "keyword_search (demo_caps low_sim) (significant_words (demo_caps low_sim) q_parcel) [sec0, sec1, sec2] = None"
    by (simp add: keyword_search_none overlap_parcel)
  with below_threshold [OF h1 h2 h3] show ?thesis
    by (simp add: fallback_response_def ustr_def)
qed

text \<open>Claim C10 on the demonstration document.\<close>

theorem resolver_result_range_witness:
  "find_relevant_section (demo_caps low_sim) q_shipping [sec0, sec1, sec2] [sec0, sec1, sec2] = Inr sec1 \<and>
   sec1 \<in> set [sec0, sec1, sec2]"
proof -
  have h1: "length [sec0, sec1, sec2] = length [sec0, sec1, sec2]" by simp
  have h3: "\<forall>j<length [sec0, sec1, sec2].
              cos_sim (demo_caps low_sim) (embedder (demo_caps low_sim) q_shipping) ([sec0, sec1, sec2] ! j) < 0.4"
    by (simp add: demo_caps_sel low_sim_def)
  have ks: "keyword_search (demo_caps low_sim) (significant_words (demo_caps low_sim) q_shipping) [sec0, sec1, sec2] = Some sec1"
    by (simp add: overlap_shipping Let_def)
  have r: "find_relevant_section (demo_caps low_sim) q_shipping [sec0, sec1, sec2] [sec0, sec1, sec2] = Inr sec1"
    using below_threshold [OF h1 _ h3] ks by simp
  from resolver_result_range [OF h1, of "demo_caps low_sim" q_shipping] r show ?thesis by simp
qed

text \<open>On the empty sequence the fallback sentence is not returned.\<close>

theorem empty_sections_counterexample:
  "find_relevant_section (demo_caps low_sim) q_shipping [] [] \<noteq> Inr fallback_response"
  by (simp add: find_relevant_section_def)


section \<open>Properties of the session\<close>

subsection \<open>The resolver on the document of a state\<close>

lemma find_relevant_section_returns:
  assumes "sects \<noteq> []" and "length section_embs = length sects"
  shows "\<exists>s. find_relevant_section c query sects section_embs = Inr s"
proof -
  from assms have ne: "section_embs \<noteq> []" by auto
  from find_relevant_section_cases [OF ne assms(2), of c query] obtain r where
    "find_relevant_section c query sects section_embs =
             (if SIMILARITY_THRESHOLD \<le> cos_sim c (embedder c query) (section_embs ! r)
              then Inr (sects ! r)
              else case keyword_search c (significant_words c query) sects of
                     Some section \<Rightarrow> Inr section | None \<Rightarrow> Inr fallback_response)"
    by blast
  then show ?thesis by (simp split: option.splits)
qed

lemma resolve_in_state_returns:
  assumes "has_document st"
  shows "\<exists>context. resolve_in_state c query st = Inr context"
  using assms find_relevant_section_returns [of _ _ c query]
  by (auto simp: has_document_def resolve_in_state_def split: option.splits)

lemma resolve_in_state_frame:
  assumes "sections st' = sections st" and "section_embeddings st' = section_embeddings st"
  shows "resolve_in_state c query st' = resolve_in_state c query st"
  using assms by (simp add: resolve_in_state_def)

lemma has_document_frame:
  assumes "sections st' = sections st" and "section_embeddings st' = section_embeddings st"
  shows "has_document st' = has_document st"
  using assms by (simp add: has_document_def)

lemma has_document_update [simp]:
  "has_document (st\<lparr>current_query := a\<rparr>) = has_document st"
  "has_document (st\<lparr>feedback_count := n\<rparr>) = has_document st"
  "has_document (st\<lparr>mode := m\<rparr>) = has_document st"
  "has_document (st\<lparr>chat_history := h\<rparr>) = has_document st"
  "has_document (st\<lparr>last_answer := b\<rparr>) = has_document st"
  by (rule has_document_frame; simp)+

subsection \<open>The successor state of each branch\<close>

lemma handle_input_upload:
  assumes "mode st = waiting_for_upload"
  shows "handle_input c user_input st = Inr (say (Bot, ustr ''Please upload a file first.'') st, [])"
  using assms by (simp add: handle_input_def)

lemma handle_input_query:
  assumes "mode st = waiting_for_query" and "resolve_in_state c user_input st = Inr context"
  shows "handle_input c user_input st =
           Inr (say (Bot, ustr ''Answer: '' @
                          (if context = fallback_response then context
                           else qa_model c user_input context None) @ feedback_prompt)
                  (say (User, user_input)
                     (st\<lparr>current_query := Some user_input, feedback_count := 0,
                         last_answer := Some (if context = fallback_response then context
                                              else qa_model c user_input context None),
                         mode := waiting_for_feedback\<rparr>)),
                if context = fallback_response then [] else [(user_input, context, None)])"
proof -
  have "resolve_in_state c user_input (st\<lparr>current_query := Some user_input, feedback_count := 0\<rparr>)
          = Inr context"
    using assms(2) by (simp add: resolve_in_state_def)
  then show ?thesis using assms(1)
    by (simp add: handle_input_def handle_query_def Let_def)
qed

lemma handle_input_good:
  assumes "mode st = waiting_for_feedback" and "str_lower c user_input = ustr ''good''"
  shows "handle_input c user_input st =
           Inr (say (Bot, ustr ''Thank you for your feedback. You can ask another question.'')
                  ((say (User, str_lower c user_input) st)\<lparr>mode := waiting_for_query\<rparr>), [])"
  using assms by (simp add: handle_input_def handle_feedback_def Let_def)

lemma handle_input_capped:
  assumes "mode st = waiting_for_feedback" and "str_lower c user_input \<noteq> ustr ''good''"
    and "2 \<le> feedback_count st"
  shows "handle_input c user_input st =
           Inr (say (Bot, ustr ''Maximum feedback iterations reached. You can ask another question.'')
                  ((say (User, str_lower c user_input) st)\<lparr>mode := waiting_for_query\<rparr>), [])"
  using assms by (simp add: handle_input_def handle_feedback_def Let_def say_def)

lemma handle_input_too_vague:
  assumes "mode st = waiting_for_feedback" and "feedback_count st < 2"
    and "str_lower c user_input = ustr ''too vague''"
    and "current_query st = Some query" and "resolve_in_state c query st = Inr context"
  shows "handle_input c user_input st =
           Inr (say (Bot, ustr ''Updated answer: '' @
                          with_more_details (format_opt (last_answer st)) context @ feedback_prompt)
                  ((say (User, str_lower c user_input) st)
                     \<lparr>last_answer := Some (with_more_details (format_opt (last_answer st)) context),
                      feedback_count := feedback_count st + 1\<rparr>), [])"
proof -
  have ne: "ustr ''too vague'' \<noteq> ustr ''good''" by (simp add: ustr_def)
  have "resolve_in_state c query (say (User, str_lower c user_input) st) = Inr context"
    using assms(5) by (simp add: resolve_in_state_def say_def)
  then show ?thesis using assms(1-4) ne
    by (simp add: handle_input_def handle_feedback_def Let_def say_def)
qed

lemma handle_input_not_helpful:
  assumes "mode st = waiting_for_feedback" and "feedback_count st < 2"
    and "str_lower c user_input = ustr ''not helpful''"
    and "current_query st = Some query" and "resolve_in_state c query st = Inr context"
  shows "handle_input c user_input st =
           Inr (say (Bot, ustr ''Updated answer: '' @
                          qa_model c (query @ more_detail_suffix) context None @ feedback_prompt)
                  ((say (User, str_lower c user_input) st)
                     \<lparr>last_answer := Some (qa_model c (query @ more_detail_suffix) context None),
                      feedback_count := feedback_count st + 1\<rparr>),
                [(query @ more_detail_suffix, context, None)])"
proof -
  have ne: "ustr ''not helpful'' \<noteq> ustr ''good''" "ustr ''not helpful'' \<noteq> ustr ''too vague''"
    by (simp_all add: ustr_def)
  have "resolve_in_state c query (say (User, str_lower c user_input) st) = Inr context"
    using assms(5) by (simp add: resolve_in_state_def say_def)
  then show ?thesis using assms(1-4) ne
    by (simp add: handle_input_def handle_feedback_def Let_def say_def)
qed

lemma handle_input_invalid:
  assumes "mode st = waiting_for_feedback" and "feedback_count st < 2"
    and "str_lower c user_input \<noteq> ustr ''good''"
    and "str_lower c user_input \<noteq> ustr ''too vague''"
    and "str_lower c user_input \<noteq> ustr ''not helpful''"
    and "current_query st = Some query" and "resolve_in_state c query st = Inr context"
  shows "handle_input c user_input st =
           Inr (say (Bot, ustr ''Please provide valid feedback: good, too vague, not helpful.'')
                  (say (User, str_lower c user_input) st), [])"
proof -
  have "resolve_in_state c query (say (User, str_lower c user_input) st) = Inr context"
    using assms(7) by (simp add: resolve_in_state_def say_def)
  then show ?thesis using assms(1-6)
    by (simp add: handle_input_def handle_feedback_def Let_def say_def)
qed

subsection \<open>The invariant holds in every reachable state\<close>

lemma session_inv_initial: "session_inv initial_state"
  by (simp add: session_inv_def initial_state_def)

lemma split_nn_nonempty: "split_nn text \<noteq> []"
  by (simp add: split_nn_def split_nn_aux_nonempty)

lemma session_inv_install:
  "session_inv (snd (install_document c text st))"
  by (simp add: install_document_def Let_def session_inv_def has_document_def split_nn_nonempty)

lemma session_inv_process_file:
  assumes "session_inv st"
  shows "session_inv (snd (process_file c file st))"
  using assms by (simp add: process_file_def session_inv_install split: option.splits)

lemma session_inv_handle_input:
  assumes "session_inv st" and "handle_input c user_input st = Inr (st', calls)"
  shows "session_inv st'"
proof (cases "mode st")
  case waiting_for_upload
  with assms show ?thesis
    by (auto simp: handle_input_upload say_def session_inv_def)
next
  case waiting_for_query
  with assms(1) have "has_document st" by (simp add: session_inv_def)
  then obtain cx where ctx: "resolve_in_state c user_input st = Inr cx"
    using resolve_in_state_returns by blast
  from assms(2) handle_input_query [OF waiting_for_query ctx] \<open>has_document st\<close>
  show ?thesis
    by (auto simp: say_def session_inv_def)
next
  case waiting_for_feedback
  with assms(1) have doc: "has_document st" and "current_query st \<noteq> None"
    and la: "last_answer st \<noteq> None" and lo: "0 \<le> feedback_count st"
    by (simp_all add: session_inv_def)
  then obtain query where q: "current_query st = Some query" by auto
  from doc obtain cx where ctx: "resolve_in_state c query st = Inr cx"
    using resolve_in_state_returns by blast
  consider (good) "str_lower c user_input = ustr ''good''"
    | (capped) "str_lower c user_input \<noteq> ustr ''good''" "2 \<le> feedback_count st"
    | (vague) "feedback_count st < 2" "str_lower c user_input = ustr ''too vague''"
    | (nothelpful) "feedback_count st < 2" "str_lower c user_input = ustr ''not helpful''"
    | (invalid) "feedback_count st < 2" "str_lower c user_input \<noteq> ustr ''good''"
        "str_lower c user_input \<noteq> ustr ''too vague''" "str_lower c user_input \<noteq> ustr ''not helpful''"
    by fastforce
  then show ?thesis
  proof cases
    case good
    from assms handle_input_good [OF waiting_for_feedback good] doc show ?thesis
      by (auto simp: say_def session_inv_def)
  next
    case capped
    from assms handle_input_capped [OF waiting_for_feedback capped] doc show ?thesis
      by (auto simp: say_def session_inv_def)
  next
    case vague
    from assms handle_input_too_vague [OF waiting_for_feedback vague q ctx] doc q lo vague
      waiting_for_feedback show ?thesis
      by (auto simp: say_def session_inv_def)
  next
    case nothelpful
    from assms handle_input_not_helpful [OF waiting_for_feedback nothelpful q ctx] doc q lo nothelpful
      waiting_for_feedback show ?thesis
      by (auto simp: say_def session_inv_def)
  next
    case invalid
    from assms handle_input_invalid [OF waiting_for_feedback invalid q ctx] doc q la lo
      waiting_for_feedback show ?thesis
      by (auto simp: say_def session_inv_def)
  qed
qed

lemma reachable_session_inv:
  assumes "reachable c st"
  shows "session_inv st"
  using assms
proof (induction rule: reachable.induct)
  case reachable_init
  show ?case by (rule session_inv_initial)
next
  case (reachable_upload st f)
  then show ?case by (simp add: session_inv_process_file)
next
  case (reachable_input st user_input st' calls)
  then show ?case by (blast intro: session_inv_handle_input)
qed

lemma handle_input_returns:
  assumes "session_inv st"
  shows "\<exists>st' calls. handle_input c user_input st = Inr (st', calls)"
proof (cases "mode st")
  case waiting_for_upload
  then show ?thesis by (simp add: handle_input_upload)
next
  case waiting_for_query
  with assms have "has_document st" by (simp add: session_inv_def)
  then obtain cx where ctx: "resolve_in_state c user_input st = Inr cx"
    using resolve_in_state_returns by blast
  from handle_input_query [OF waiting_for_query ctx] show ?thesis by blast
next
  case waiting_for_feedback
  with assms have doc: "has_document st" and "current_query st \<noteq> None"
    by (simp_all add: session_inv_def)
  then obtain query where q: "current_query st = Some query" by auto
  from doc obtain cx where ctx: "resolve_in_state c query st = Inr cx"
    using resolve_in_state_returns by blast
  consider (good) "str_lower c user_input = ustr ''good''"
    | (capped) "str_lower c user_input \<noteq> ustr ''good''" "2 \<le> feedback_count st"
    | (vague) "feedback_count st < 2" "str_lower c user_input = ustr ''too vague''"
    | (nothelpful) "feedback_count st < 2" "str_lower c user_input = ustr ''not helpful''"
    | (invalid) "feedback_count st < 2" "str_lower c user_input \<noteq> ustr ''good''"
        "str_lower c user_input \<noteq> ustr ''too vague''" "str_lower c user_input \<noteq> ustr ''not helpful''"
    by fastforce
  then show ?thesis
  proof cases
    case good
    from handle_input_good [OF waiting_for_feedback good] show ?thesis by blast
  next
    case capped
    from handle_input_capped [OF waiting_for_feedback capped] show ?thesis by blast
  next
    case vague
    from handle_input_too_vague [OF waiting_for_feedback vague q ctx] show ?thesis by blast
  next
    case nothelpful
    from handle_input_not_helpful [OF waiting_for_feedback nothelpful q ctx] show ?thesis by blast
  next
    case invalid
    from handle_input_invalid [OF waiting_for_feedback invalid q ctx] show ?thesis by blast
  qed
qed

lemma reachable_submit:
  assumes "reachable c st"
  shows "reachable c (submit c user_input st)"
proof (cases "handle_input c user_input st")
  case (Inl e)
  with assms show ?thesis by (simp add: submit_def)
next
  case (Inr r)
  obtain st' calls where r: "r = (st', calls)" by (cases r)
  with Inr assms have "reachable c st'" by (blast intro: reachable_input)
  with Inr r show ?thesis by (simp add: submit_def)
qed

subsection \<open>The demonstration session, state by state\<close>

lemma submit_returns:
  assumes "handle_input c user_input st = Inr (st', calls)"
  shows "submit c user_input st = st'"
  using assms by (simp add: submit_def)

lemma split_demo_text: "split_nn demo_text = [sec0, sec1, sec2]"
  by (simp add: demo_text_def split_nn_def demo_defs)

lemma demo_find_shipping:
  "find_relevant_section (demo_caps low_sim) q_shipping [sec0, sec1, sec2] [sec0, sec1, sec2] = Inr sec1"
proof -
  have h1: "length [sec0, sec1, sec2] = length [sec0, sec1, sec2]" by simp
  have h2: "[sec0, sec1, sec2] \<noteq> []" by simp
  have h3: "\<forall>j<length [sec0, sec1, sec2].
              cos_sim (demo_caps low_sim) (embedder (demo_caps low_sim) q_shipping) ([sec0, sec1, sec2] ! j) < 0.4"
    by (simp add: demo_caps_sel low_sim_def)
  have "keyword_search (demo_caps low_sim) (significant_words (demo_caps low_sim) q_shipping)
          [sec0, sec1, sec2] = Some sec1"
    by (simp add: overlap_shipping Let_def)
  with below_threshold [OF h1 h2 h3] show ?thesis by simp
qed

lemma demo_find_parcel:
  "find_relevant_section (demo_caps low_sim) q_parcel [sec0, sec1, sec2] [sec0, sec1, sec2]
     = Inr fallback_response"
proof -
  have h1: "length [sec0, sec1, sec2] = length [sec0, sec1, sec2]" by simp
  have h2: "[sec0, sec1, sec2] \<noteq> []" by simp
  have h3: "\<forall>j<length [sec0, sec1, sec2].
              cos_sim (demo_caps low_sim) (embedder (demo_caps low_sim) q_parcel) ([sec0, sec1, sec2] ! j) < 0.4"
    by (simp add: demo_caps_sel low_sim_def)
  have "keyword_search (demo_caps low_sim) (significant_words (demo_caps low_sim) q_parcel)
          [sec0, sec1, sec2] = None"
    by (simp add: keyword_search_none overlap_parcel)
  with below_threshold [OF h1 h2 h3] show ?thesis by simp
qed

lemma demo_resolve_shipping:
  assumes "sections st = Some [sec0, sec1, sec2]"
    and "section_embeddings st = Some [sec0, sec1, sec2]"
  shows "resolve_in_state (demo_caps low_sim) q_shipping st = Inr sec1"
  using assms by (simp add: resolve_in_state_def demo_find_shipping)

lemma sec1_not_fallback: "sec1 \<noteq> fallback_response"
  by (simp add: demo_defs fallback_response_def)

lemma demo_lower:
  "str_lower (demo_caps sim) (ustr ''too vague'') = ustr ''too vague''"
  "str_lower (demo_caps sim) (ustr ''Not Helpful'') = ustr ''not helpful''"
  "str_lower (demo_caps sim) (ustr ''maybe'') = ustr ''maybe''"
  by (simp_all add: demo_caps_sel ascii_lower_def ustr_def)

lemma demo_maybe_invalid:
  "ustr ''maybe'' \<noteq> ustr ''good''" "ustr ''maybe'' \<noteq> ustr ''too vague''"
  "ustr ''maybe'' \<noteq> ustr ''not helpful''" "ustr ''too vague'' \<noteq> ustr ''good''"
  by (simp_all add: ustr_def)

lemma demo_loaded_fields:
  "mode demo_loaded = waiting_for_query"
  "feedback_count demo_loaded = 0"
  "sections demo_loaded = Some [sec0, sec1, sec2]"
  "section_embeddings demo_loaded = Some [sec0, sec1, sec2]"
proof -
  have is_txt: "endswith (str_lower (demo_caps low_sim) (ustr ''faq.txt'')) (ustr ''.txt'')"
    and not_pdf: "\<not> endswith (str_lower (demo_caps low_sim) (ustr ''faq.txt'')) (ustr ''.pdf'')"
    by (simp_all add: endswith_def demo_caps_sel ascii_lower_def ustr_def)
  have eq: "demo_loaded = snd (install_document (demo_caps low_sim) demo_text initial_state)"
    using is_txt not_pdf by (simp add: demo_loaded_def process_file_def demo_caps_sel)
  show "mode demo_loaded = waiting_for_query" "feedback_count demo_loaded = 0"
    "sections demo_loaded = Some [sec0, sec1, sec2]"
    "section_embeddings demo_loaded = Some [sec0, sec1, sec2]"
    by (simp_all add: eq install_document_def Let_def split_demo_text demo_caps_sel)
qed


lemma demo_asked_fields:
  "mode demo_asked = waiting_for_feedback"
  "feedback_count demo_asked = 0"
  "current_query demo_asked = Some q_shipping"
  "last_answer demo_asked = Some (take 8 sec1)"
  "sections demo_asked = Some [sec0, sec1, sec2]"
  "section_embeddings demo_asked = Some [sec0, sec1, sec2]"
proof -
  have r: "resolve_in_state (demo_caps low_sim) q_shipping demo_loaded = Inr sec1"
    by (rule demo_resolve_shipping) (simp_all add: demo_loaded_fields)
  from handle_input_query [OF demo_loaded_fields(1) r] sec1_not_fallback
  have eq: "demo_asked = say (Bot, ustr ''Answer: '' @ take 8 sec1 @ feedback_prompt)
                  (say (User, q_shipping)
                     (demo_loaded\<lparr>current_query := Some q_shipping, feedback_count := 0,
                         last_answer := Some (take 8 sec1), mode := waiting_for_feedback\<rparr>))"
    by (simp add: demo_asked_def submit_def demo_caps_sel)
  show "mode demo_asked = waiting_for_feedback" "feedback_count demo_asked = 0"
    "current_query demo_asked = Some q_shipping" "last_answer demo_asked = Some (take 8 sec1)"
    "sections demo_asked = Some [sec0, sec1, sec2]"
    "section_embeddings demo_asked = Some [sec0, sec1, sec2]"
    by (simp_all add: eq say_def demo_loaded_fields)
qed

lemma demo_asked_resolve: "resolve_in_state (demo_caps low_sim) q_shipping demo_asked = Inr sec1"
  by (rule demo_resolve_shipping) (simp_all add: demo_asked_fields)

lemma demo_refined_once_fields:
  "mode demo_refined_once = waiting_for_feedback"
  "feedback_count demo_refined_once = 1"
  "current_query demo_refined_once = Some q_shipping"
  "last_answer demo_refined_once = Some (with_more_details (take 8 sec1) sec1)"
  "sections demo_refined_once = Some [sec0, sec1, sec2]"
  "section_embeddings demo_refined_once = Some [sec0, sec1, sec2]"
proof -
  have lt: "feedback_count demo_asked < 2" by (simp add: demo_asked_fields)
  from handle_input_too_vague [OF demo_asked_fields(1) lt demo_lower(1) demo_asked_fields(3)
      demo_asked_resolve]
  have eq: "demo_refined_once =
              (say (User, str_lower (demo_caps low_sim) (ustr ''too vague'')) demo_asked)
                 \<lparr>last_answer := Some (with_more_details (format_opt (last_answer demo_asked)) sec1),
                  feedback_count := feedback_count demo_asked + 1,
                  chat_history := chat_history (say (User, str_lower (demo_caps low_sim) (ustr ''too vague'')) demo_asked) @
                    [(Bot, ustr ''Updated answer: '' @
                          with_more_details (format_opt (last_answer demo_asked)) sec1 @ feedback_prompt)]\<rparr>"
    by (simp add: demo_refined_once_def submit_def say_def)
  show "mode demo_refined_once = waiting_for_feedback" "feedback_count demo_refined_once = 1"
    "current_query demo_refined_once = Some q_shipping"
    "last_answer demo_refined_once = Some (with_more_details (take 8 sec1) sec1)"
    "sections demo_refined_once = Some [sec0, sec1, sec2]"
    "section_embeddings demo_refined_once = Some [sec0, sec1, sec2]"
    by (simp_all add: eq say_def demo_asked_fields format_opt_def)
qed

lemma demo_refined_once_resolve:
  "resolve_in_state (demo_caps low_sim) q_shipping demo_refined_once = Inr sec1"
  by (rule demo_resolve_shipping) (simp_all add: demo_refined_once_fields)

lemma demo_refined_twice_fields:
  "mode demo_refined_twice = waiting_for_feedback"
  "feedback_count demo_refined_twice = 2"
  "current_query demo_refined_twice = Some q_shipping"
  "last_answer demo_refined_twice = Some (take 8 sec1)"
  "sections demo_refined_twice = Some [sec0, sec1, sec2]"
  "section_embeddings demo_refined_twice = Some [sec0, sec1, sec2]"
proof -
  have lt: "feedback_count demo_refined_once < 2" by (simp add: demo_refined_once_fields)
  from handle_input_not_helpful [OF demo_refined_once_fields(1) lt demo_lower(2)
      demo_refined_once_fields(3) demo_refined_once_resolve]
  have eq: "demo_refined_twice =
              (say (User, str_lower (demo_caps low_sim) (ustr ''Not Helpful'')) demo_refined_once)
                 \<lparr>last_answer := Some (take 8 sec1),
                  feedback_count := feedback_count demo_refined_once + 1,
                  chat_history := chat_history (say (User, str_lower (demo_caps low_sim) (ustr ''Not Helpful'')) demo_refined_once) @
                    [(Bot, ustr ''Updated answer: '' @ take 8 sec1 @ feedback_prompt)]\<rparr>"
    by (simp add: demo_refined_twice_def submit_def say_def demo_caps_sel)
  show "mode demo_refined_twice = waiting_for_feedback" "feedback_count demo_refined_twice = 2"
    "current_query demo_refined_twice = Some q_shipping"
    "last_answer demo_refined_twice = Some (take 8 sec1)"
    "sections demo_refined_twice = Some [sec0, sec1, sec2]"
    "section_embeddings demo_refined_twice = Some [sec0, sec1, sec2]"
    by (simp_all add: eq say_def demo_refined_once_fields)
qed

lemma demo_reachable:
  "reachable (demo_caps low_sim) demo_loaded"
  "reachable (demo_caps low_sim) demo_asked"
  "reachable (demo_caps low_sim) demo_refined_once"
  "reachable (demo_caps low_sim) demo_refined_twice"
proof -
  show l: "reachable (demo_caps low_sim) demo_loaded"
    unfolding demo_loaded_def by (rule reachable_upload [OF reachable_init])
  show a: "reachable (demo_caps low_sim) demo_asked"
    unfolding demo_asked_def by (rule reachable_submit [OF l])
  show o: "reachable (demo_caps low_sim) demo_refined_once"
    unfolding demo_refined_once_def by (rule reachable_submit [OF a])
  show "reachable (demo_caps low_sim) demo_refined_twice"
    unfolding demo_refined_twice_def by (rule reachable_submit [OF o])
qed

lemma demo_capped_step:
  "handle_input (demo_caps low_sim) (ustr ''too vague'') demo_refined_twice = Inr (demo_capped, [])"
  "mode demo_capped = waiting_for_query"
  "feedback_count demo_capped = 2"
proof -
  have ne: "str_lower (demo_caps low_sim) (ustr ''too vague'') \<noteq> ustr ''good''"
    by (simp add: demo_lower demo_maybe_invalid)
  have ge: "2 \<le> feedback_count demo_refined_twice" by (simp add: demo_refined_twice_fields)
  note step = handle_input_capped [OF demo_refined_twice_fields(1) ne ge]
  have eq: "demo_capped =
              say (Bot, ustr ''Maximum feedback iterations reached. You can ask another question.'')
                ((say (User, str_lower (demo_caps low_sim) (ustr ''too vague'')) demo_refined_twice)
                   \<lparr>mode := waiting_for_query\<rparr>)"
    using step by (simp add: demo_capped_def submit_def)
  from step show "handle_input (demo_caps low_sim) (ustr ''too vague'') demo_refined_twice
                       = Inr (demo_capped, [])"
    by (simp add: eq)
  show "mode demo_capped = waiting_for_query" "feedback_count demo_capped = 2"
    by (simp_all add: eq say_def demo_refined_twice_fields)
qed

subsection \<open>The cap on the feedback rounds\<close>

text \<open>
  Claim C3, as the code has it. In every reachable state of the session the feedback
  counter is at most 2. When feedback other than \<open>good\<close> arrives while the counter is
  2 or more, \<open>handle_input\<close> calls no model and moves to \<open>waiting_for_query\<close>; the
  counter keeps its value through that transition, and it is the next query, whatever
  it is, that sets the counter to 0 again.
\<close>

theorem feedback_counter_cap:
  assumes "reachable c st"
  shows "feedback_count st \<le> 2 \<and>
         (mode st = waiting_for_feedback \<and> 2 \<le> feedback_count st \<and>
          str_lower c user_input \<noteq> ustr ''good'' \<longrightarrow>
            (\<exists>st'. handle_input c user_input st = Inr (st', []) \<and>
                   mode st' = waiting_for_query \<and>
                   feedback_count st' = feedback_count st \<and>
                   (\<forall>query. \<exists>st'' calls. handle_input c query st' = Inr (st'', calls) \<and>
                        mode st'' = waiting_for_feedback \<and> feedback_count st'' = 0)))"
proof -
  from assms have inv: "session_inv st" by (rule reachable_session_inv)
  then have le: "feedback_count st \<le> 2" by (simp add: session_inv_def)
  have "\<exists>st'. handle_input c user_input st = Inr (st', []) \<and>
              mode st' = waiting_for_query \<and> feedback_count st' = feedback_count st \<and>
              (\<forall>query. \<exists>st'' calls. handle_input c query st' = Inr (st'', calls) \<and>
                   mode st'' = waiting_for_feedback \<and> feedback_count st'' = 0)"
    if m: "mode st = waiting_for_feedback" and ge: "2 \<le> feedback_count st"
      and ne: "str_lower c user_input \<noteq> ustr ''good''"
  proof -
    let ?st' = "say (Bot, ustr ''Maximum feedback iterations reached. You can ask another question.'')
                  ((say (User, str_lower c user_input) st)\<lparr>mode := waiting_for_query\<rparr>)"
    have step: "handle_input c user_input st = Inr (?st', [])"
      by (rule handle_input_capped [OF m ne ge])
    have m': "mode ?st' = waiting_for_query" and fc: "feedback_count ?st' = feedback_count st"
      by (simp_all add: say_def)
    from inv m have "has_document st" by (simp add: session_inv_def)
    then have doc: "has_document ?st'" by (simp add: say_def)
    have next_query: "\<exists>st'' calls. handle_input c query ?st' = Inr (st'', calls) \<and>
                        mode st'' = waiting_for_feedback \<and> feedback_count st'' = 0" for query
    proof -
      from doc obtain cx where cx: "resolve_in_state c query ?st' = Inr cx"
        using resolve_in_state_returns by blast
      from handle_input_query [OF m' cx] show ?thesis by (simp add: say_def)
    qed
    from step m' fc next_query show ?thesis by blast
  qed
  with le show ?thesis by blast
qed

text \<open>
  Claim C3 on the demonstration session, after a question and two refinements: the third
  feedback ends the round, the counter is still 2, and the next question resets it.
\<close>

theorem feedback_counter_cap_witness:
  "reachable (demo_caps low_sim) demo_refined_twice \<and>
   mode demo_refined_twice = waiting_for_feedback \<and> feedback_count demo_refined_twice = 2 \<and>
   str_lower (demo_caps low_sim) (ustr ''too vague'') \<noteq> ustr ''good'' \<and>
   handle_input (demo_caps low_sim) (ustr ''too vague'') demo_refined_twice = Inr (demo_capped, []) \<and>
   mode demo_capped = waiting_for_query \<and> feedback_count demo_capped = 2 \<and>
   feedback_count (submit (demo_caps low_sim) q_parcel demo_capped) = 0"
proof -
  have ne: "str_lower (demo_caps low_sim) (ustr ''too vague'') \<noteq> ustr ''good''"
    by (simp add: demo_lower demo_maybe_invalid)
  from feedback_counter_cap [OF demo_reachable(4), of "ustr ''too vague''"] ne
  obtain st' where st': "handle_input (demo_caps low_sim) (ustr ''too vague'') demo_refined_twice = Inr (st', [])"
    "mode st' = waiting_for_query" "feedback_count st' = feedback_count demo_refined_twice"
    "\<forall>query. \<exists>st'' calls. handle_input (demo_caps low_sim) query st' = Inr (st'', calls) \<and>
        mode st'' = waiting_for_feedback \<and> feedback_count st'' = 0"
    by (auto simp: demo_refined_twice_fields)
  from st'(1) have eq: "st' = demo_capped" by (simp add: demo_capped_def submit_def)
  from st'(4) obtain st'' calls where
    "handle_input (demo_caps low_sim) q_parcel st' = Inr (st'', calls)" "feedback_count st'' = 0"
    by blast
  then have "feedback_count (submit (demo_caps low_sim) q_parcel st') = 0"
    by (simp add: submit_def)
  with st' eq ne demo_reachable(4) show ?thesis
    by (simp add: demo_refined_twice_fields)
qed

text \<open>The transition at the cap does not set the counter to 0.\<close>

theorem feedback_counter_reset_counterexample:
  "mode demo_refined_twice = waiting_for_feedback \<and> feedback_count demo_refined_twice = 2 \<and>
   str_lower (demo_caps low_sim) (ustr ''too vague'') = ustr ''too vague'' \<and>
   handle_input (demo_caps low_sim) (ustr ''too vague'') demo_refined_twice = Inr (demo_capped, []) \<and>
   feedback_count demo_capped \<noteq> 0"
  by (simp add: demo_refined_twice_fields demo_capped_step demo_lower)

subsection \<open>Feedback outside the vocabulary\<close>

text \<open>
  Claim C6, as the code has it. In mode \<open>waiting_for_feedback\<close>, an input that is none
  of \<open>good\<close>, \<open>too vague\<close> and \<open>not helpful\<close> after lower-casing makes no call of the
  question-answering model and leaves the counter, the current query and the last answer
  unchanged (below the cap the section is still resolved before the label is tested); the chat history
  gets the input and one message. While the counter is below 2 the mode is unchanged
  and the message asks for valid feedback; once the counter is 2 the cap is tested
  first, the mode becomes \<open>waiting_for_query\<close> and the message announces the end of
  the round.
\<close>

theorem invalid_feedback_frame:
  assumes "reachable c st" and "mode st = waiting_for_feedback"
    and "str_lower c user_input \<noteq> ustr ''good''"
    and "str_lower c user_input \<noteq> ustr ''too vague''"
    and "str_lower c user_input \<noteq> ustr ''not helpful''"
  shows "\<exists>st'. handle_input c user_input st = Inr (st', []) \<and>
           feedback_count st' = feedback_count st \<and> current_query st' = current_query st \<and>
           last_answer st' = last_answer st \<and>
           mode st' = (if feedback_count st < 2 then waiting_for_feedback else waiting_for_query) \<and>
           chat_history st' = chat_history st @
             [(User, str_lower c user_input),
              (Bot, if feedback_count st < 2
                    then ustr ''Please provide valid feedback: good, too vague, not helpful.''
                    else ustr ''Maximum feedback iterations reached. You can ask another question.'')]"
proof (cases "feedback_count st < 2")
  case True
  from assms(1) have inv: "session_inv st" by (rule reachable_session_inv)
  with assms(2) have doc: "has_document st" and "current_query st \<noteq> None"
    by (simp_all add: session_inv_def)
  then obtain query where q: "current_query st = Some query" by auto
  from doc obtain cx where cx: "resolve_in_state c query st = Inr cx"
    using resolve_in_state_returns by blast
  from handle_input_invalid [OF assms(2) True assms(3-5) q cx] True assms(2)
  show ?thesis by (simp add: say_def)
next
  case False
  then have "2 \<le> feedback_count st" by simp
  from handle_input_capped [OF assms(2,3) this] False
  show ?thesis by (simp add: say_def)
qed

text \<open>
  Claim C6 on the demonstration session: the input \<open>maybe\<close> right after the answer, and
  the same input after two refinements.
\<close>

theorem invalid_feedback_frame_witness:
  "handle_input (demo_caps low_sim) (ustr ''maybe'') demo_asked = Inr (demo_invalid_early, []) \<and>
   feedback_count demo_asked = 0 \<and>
   mode demo_invalid_early = waiting_for_feedback \<and>
   feedback_count demo_invalid_early = 0 \<and>
   current_query demo_invalid_early = Some q_shipping \<and>
   last_answer demo_invalid_early = Some (take 8 sec1) \<and>
   handle_input (demo_caps low_sim) (ustr ''maybe'') demo_refined_twice = Inr (demo_invalid_late, []) \<and>
   feedback_count demo_refined_twice = 2 \<and>
   mode demo_invalid_late = waiting_for_query \<and>
   feedback_count demo_invalid_late = 2"
proof -
  have inv: "str_lower (demo_caps low_sim) (ustr ''maybe'') \<noteq> ustr ''good''"
    "str_lower (demo_caps low_sim) (ustr ''maybe'') \<noteq> ustr ''too vague''"
    "str_lower (demo_caps low_sim) (ustr ''maybe'') \<noteq> ustr ''not helpful''"
    by (simp_all add: demo_lower demo_maybe_invalid)
  from invalid_feedback_frame [OF demo_reachable(2) demo_asked_fields(1) inv]
  obtain s1 where s1: "handle_input (demo_caps low_sim) (ustr ''maybe'') demo_asked = Inr (s1, [])"
    "feedback_count s1 = feedback_count demo_asked" "current_query s1 = current_query demo_asked"
    "last_answer s1 = last_answer demo_asked"
    "mode s1 = (if feedback_count demo_asked < 2 then waiting_for_feedback else waiting_for_query)"
    by blast
  from s1(1) have e1: "s1 = demo_invalid_early" by (simp add: demo_invalid_early_def submit_def)
  from invalid_feedback_frame [OF demo_reachable(4) demo_refined_twice_fields(1) inv]
  obtain s2 where s2: "handle_input (demo_caps low_sim) (ustr ''maybe'') demo_refined_twice = Inr (s2, [])"
    "feedback_count s2 = feedback_count demo_refined_twice"
    "mode s2 = (if feedback_count demo_refined_twice < 2 then waiting_for_feedback else waiting_for_query)"
    by blast
  from s2(1) have e2: "s2 = demo_invalid_late" by (simp add: demo_invalid_late_def submit_def)
  from s1 s2 e1 e2 show ?thesis
    by (simp add: demo_asked_fields demo_refined_twice_fields)
qed

text \<open>With the counter at 2, invalid feedback changes the mode.\<close>

theorem invalid_feedback_at_cap_counterexample:
  "mode demo_refined_twice = waiting_for_feedback \<and>
   str_lower (demo_caps low_sim) (ustr ''maybe'') \<noteq> ustr ''good'' \<and>
   str_lower (demo_caps low_sim) (ustr ''maybe'') \<noteq> ustr ''too vague'' \<and>
   str_lower (demo_caps low_sim) (ustr ''maybe'') \<noteq> ustr ''not helpful'' \<and>
   handle_input (demo_caps low_sim) (ustr ''maybe'') demo_refined_twice = Inr (demo_invalid_late, []) \<and>
   mode demo_invalid_late \<noteq> mode demo_refined_twice"
proof -
  have ne: "str_lower (demo_caps low_sim) (ustr ''maybe'') \<noteq> ustr ''good''"
    by (simp add: demo_lower demo_maybe_invalid)
  have ge: "2 \<le> feedback_count demo_refined_twice" by (simp add: demo_refined_twice_fields)
  note step = handle_input_capped [OF demo_refined_twice_fields(1) ne ge]
  have eq: "demo_invalid_late =
              say (Bot, ustr ''Maximum feedback iterations reached. You can ask another question.'')
                ((say (User, str_lower (demo_caps low_sim) (ustr ''maybe'')) demo_refined_twice)
                   \<lparr>mode := waiting_for_query\<rparr>)"
    using step by (simp add: demo_invalid_late_def submit_def)
  have m: "mode demo_invalid_late = waiting_for_query" by (simp add: eq say_def)
  have h: "handle_input (demo_caps low_sim) (ustr ''maybe'') demo_refined_twice
             = Inr (demo_invalid_late, [])"
    using step by (simp add: eq)
  from m h show ?thesis
    by (simp add: demo_refined_twice_fields demo_lower demo_maybe_invalid)
qed

subsection \<open>Refinement of an answer\<close>

lemma adjust_response_too_vague:
  assumes "agent_find_relevant_section c self query = Inr cx"
  shows "adjust_response c self query response (ustr ''too vague'') =
           Inr (with_more_details response cx, [])"
  using assms by (simp add: adjust_response_def)

lemma handle_input_passes_fallback:
  assumes "mode st = waiting_for_query" and "resolve_in_state c query st = Inr fallback_response"
  shows "\<exists>st'. handle_input c query st = Inr (st', []) \<and> last_answer st' = Some fallback_response"
  using handle_input_query [OF assms] by (simp add: say_def)

lemma reachable_feedback_ready:
  assumes "reachable c st" and "mode st = waiting_for_feedback"
  shows "\<exists>query prior cx. current_query st = Some query \<and> last_answer st = Some prior \<and>
           resolve_in_state c query st = Inr cx"
proof -
  from assms(1) have "session_inv st" by (rule reachable_session_inv)
  with assms(2) have doc: "has_document st" and "current_query st \<noteq> None" "last_answer st \<noteq> None"
    by (simp_all add: session_inv_def)
  then obtain query prior where "current_query st = Some query" "last_answer st = Some prior" by auto
  moreover from doc obtain cx where "resolve_in_state c query st = Inr cx"
    using resolve_in_state_returns by blast
  ultimately show ?thesis by blast
qed

text \<open>
  Claim C4. For the feedback \<open>too vague\<close> with a counter below 2, \<open>handle_input\<close>
  calls no model, and the new last answer is the prior answer, then two line feeds, the
  text \<open>(More details:\<close> and a line feed, then the first 500 characters of the section
  resolved for the current query, then \<open>...)\<close>. So the prior answer is a prefix of the
  new one and the excerpt has at most 500 characters. \<open>adjust_response\<close> of the agent
  builds the same text from its response, and calls no model either.
\<close>

theorem too_vague_appends_excerpt:
  assumes "mode st = waiting_for_feedback" and "feedback_count st < 2"
    and "str_lower c user_input = ustr ''too vague''"
    and "current_query st = Some query" and "last_answer st = Some prior"
    and "resolve_in_state c query st = Inr cx"
  shows "(\<exists>st'. handle_input c user_input st = Inr (st', []) \<and>
            last_answer st' =
              Some (prior @ [10, 10] @ ustr ''(More details:'' @ [10] @ take 500 cx @ ustr ''...)'') \<and>
            feedback_count st' = feedback_count st + 1 \<and> mode st' = waiting_for_feedback) \<and>
         prefix prior (prior @ [10, 10] @ ustr ''(More details:'' @ [10] @ take 500 cx @ ustr ''...)'') \<and>
         length (take 500 cx) \<le> 500 \<and> prefix (take 500 cx) cx \<and>
         (agent_find_relevant_section c self query = Inr cx \<longrightarrow>
            adjust_response c self query prior (ustr ''too vague'') =
              Inr (prior @ [10, 10] @ ustr ''(More details:'' @ [10] @ take 500 cx @ ustr ''...)'', []))"
proof -
  from handle_input_too_vague [OF assms(1,2,3,4,6)] assms(1,5)
  have "\<exists>st'. handle_input c user_input st = Inr (st', []) \<and>
            last_answer st' =
              Some (prior @ [10, 10] @ ustr ''(More details:'' @ [10] @ take 500 cx @ ustr ''...)'') \<and>
            feedback_count st' = feedback_count st + 1 \<and> mode st' = waiting_for_feedback"
    by (simp add: say_def format_opt_def with_more_details_def)
  moreover have "prefix (take 500 cx) cx" by (rule take_is_prefix)
  moreover have "agent_find_relevant_section c self query = Inr cx \<longrightarrow>
            adjust_response c self query prior (ustr ''too vague'') =
              Inr (prior @ [10, 10] @ ustr ''(More details:'' @ [10] @ take 500 cx @ ustr ''...)'', [])"
    by (simp add: adjust_response_too_vague with_more_details_def)
  ultimately show ?thesis by simp
qed

lemma demo_long_resolve:
  "resolve_in_state (demo_caps high_sim) q_parcel demo_long = Inr long_section"
  by (simp add: resolve_in_state_def demo_long_def find_relevant_section_def demo_caps_sel
      high_sim_def SIMILARITY_THRESHOLD_def)

text \<open>
  Claim C4 on the demonstration session and agent, where the section is shorter than
  500 characters, and on the section of 600 characters, of which 500 are kept.
\<close>

theorem too_vague_appends_excerpt_witness:
  "handle_input (demo_caps low_sim) (ustr ''too vague'') demo_asked = Inr (demo_refined_once, []) \<and>
   last_answer demo_asked = Some (take 8 sec1) \<and>
   last_answer demo_refined_once =
     Some (take 8 sec1 @ [10, 10] @ ustr ''(More details:'' @ [10] @ sec1 @ ustr ''...)'') \<and>
   adjust_response (demo_caps low_sim) demo_agent q_shipping (take 8 sec1) (ustr ''too vague'') =
     Inr (take 8 sec1 @ [10, 10] @ ustr ''(More details:'' @ [10] @ sec1 @ ustr ''...)'', []) \<and>
   last_answer (submit (demo_caps high_sim) (ustr ''too vague'') demo_long) =
     Some (replicate 8 97 @ [10, 10] @ ustr ''(More details:'' @ [10] @ replicate 500 97 @ ustr ''...)'')"
proof -
  have lt: "feedback_count demo_asked < 2" by (simp add: demo_asked_fields)
  have ag: "agent_find_relevant_section (demo_caps low_sim) demo_agent q_shipping = Inr sec1"
    by (simp add: agent_find_relevant_section_def demo_agent_def demo_find_shipping)
  have t: "take 500 sec1 = sec1" by (simp add: demo_defs)
  from too_vague_appends_excerpt [OF demo_asked_fields(1) lt demo_lower(1) demo_asked_fields(3,4)
      demo_asked_resolve, of demo_agent] ag t
  obtain s1 where s1: "handle_input (demo_caps low_sim) (ustr ''too vague'') demo_asked = Inr (s1, [])"
    "last_answer s1 = Some (take 8 sec1 @ [10, 10] @ ustr ''(More details:'' @ [10] @ sec1 @ ustr ''...)'')"
    and a1: "adjust_response (demo_caps low_sim) demo_agent q_shipping (take 8 sec1) (ustr ''too vague'') =
     Inr (take 8 sec1 @ [10, 10] @ ustr ''(More details:'' @ [10] @ sec1 @ ustr ''...)'', [])"
    by auto
  from s1(1) have e1: "s1 = demo_refined_once" by (simp add: demo_refined_once_def submit_def)
  have m: "mode demo_long = waiting_for_feedback" and l2: "feedback_count demo_long < 2"
    and q: "current_query demo_long = Some q_parcel"
    and la: "last_answer demo_long = Some (take 8 long_section)"
    by (simp_all add: demo_long_def)
  have lo: "str_lower (demo_caps high_sim) (ustr ''too vague'') = ustr ''too vague''"
    by (rule demo_lower)
  from too_vague_appends_excerpt [OF m l2 lo q la demo_long_resolve, of demo_agent]
  obtain s2 where s2: "handle_input (demo_caps high_sim) (ustr ''too vague'') demo_long = Inr (s2, [])"
    "last_answer s2 = Some (take 8 long_section @ [10, 10] @ ustr ''(More details:'' @ [10] @
        take 500 long_section @ ustr ''...)'')"
    by auto
  from s2(1) have e2: "submit (demo_caps high_sim) (ustr ''too vague'') demo_long = s2"
    by (simp add: submit_def)
  from s1 a1 e1 s2(2) e2 show ?thesis
    by (simp add: demo_asked_fields long_section_def)
qed

text \<open>
  The section that an answer is extracted from is the one resolved for the query when
  the question is asked, and a step that handles feedback changes neither the current
  query nor what the resolver returns for a query.
\<close>

lemma answer_step_context:
  assumes "reachable c st" and "mode st = waiting_for_query"
  shows "\<exists>cx st'. resolve_in_state c query st = Inr cx \<and>
           handle_input c query st =
             Inr (st', if cx = fallback_response then [] else [(query, cx, None)]) \<and>
           last_answer st' = Some (if cx = fallback_response then cx else qa_model c query cx None) \<and>
           mode st' = waiting_for_feedback \<and> current_query st' = Some query \<and>
           resolve_in_state c query st' = Inr cx"
proof -
  from assms(1) have "session_inv st" by (rule reachable_session_inv)
  with assms(2) have "has_document st" by (simp add: session_inv_def)
  then obtain cx where cx: "resolve_in_state c query st = Inr cx"
    using resolve_in_state_returns by blast
  let ?st' = "say (Bot, ustr ''Answer: '' @
                          (if cx = fallback_response then cx else qa_model c query cx None) @
                          feedback_prompt)
                  (say (User, query)
                     (st\<lparr>current_query := Some query, feedback_count := 0,
                         last_answer := Some (if cx = fallback_response then cx
                                              else qa_model c query cx None),
                         mode := waiting_for_feedback\<rparr>))"
  have step: "handle_input c query st =
                Inr (?st', if cx = fallback_response then [] else [(query, cx, None)])"
    by (rule handle_input_query [OF assms(2) cx])
  have "resolve_in_state c query ?st' = resolve_in_state c query st"
    by (rule resolve_in_state_frame) (simp_all add: say_def)
  with cx have r: "resolve_in_state c query ?st' = Inr cx" by simp
  have f: "last_answer ?st' = Some (if cx = fallback_response then cx else qa_model c query cx None)"
    "mode ?st' = waiting_for_feedback" "current_query ?st' = Some query"
    by (simp_all add: say_def)
  from cx step r f show ?thesis by blast
qed

lemma feedback_keeps_context:
  assumes "reachable c st" and "mode st = waiting_for_feedback"
    and "handle_input c user_input st = Inr (st', calls)"
  shows "current_query st' = current_query st \<and>
         resolve_in_state c query st' = resolve_in_state c query st"
proof -
  from assms(1,2) obtain q prior cx where q: "current_query st = Some q"
    and cx: "resolve_in_state c q st = Inr cx"
    using reachable_feedback_ready by blast
  consider (good) "str_lower c user_input = ustr ''good''"
    | (capped) "str_lower c user_input \<noteq> ustr ''good''" "2 \<le> feedback_count st"
    | (vague) "feedback_count st < 2" "str_lower c user_input = ustr ''too vague''"
    | (nothelpful) "feedback_count st < 2" "str_lower c user_input = ustr ''not helpful''"
    | (invalid) "feedback_count st < 2" "str_lower c user_input \<noteq> ustr ''good''"
        "str_lower c user_input \<noteq> ustr ''too vague''" "str_lower c user_input \<noteq> ustr ''not helpful''"
    by fastforce
  then have "current_query st' = current_query st \<and> sections st' = sections st \<and>
             section_embeddings st' = section_embeddings st"
  proof cases
    case good
    from assms(3) handle_input_good [OF assms(2) good] show ?thesis by (auto simp: say_def)
  next
    case capped
    from assms(3) handle_input_capped [OF assms(2) capped] show ?thesis by (auto simp: say_def)
  next
    case vague
    from assms(3) handle_input_too_vague [OF assms(2) vague q cx] show ?thesis
      by (auto simp: say_def)
  next
    case nothelpful
    from assms(3) handle_input_not_helpful [OF assms(2) nothelpful q cx] show ?thesis
      by (auto simp: say_def)
  next
    case invalid
    from assms(3) handle_input_invalid [OF assms(2) invalid q cx] show ?thesis
      by (auto simp: say_def)
  qed
  then show ?thesis by (simp add: resolve_in_state_def)
qed



subsection \<open>The fallback sentence as a context\<close>

lemma demo_unanswered_step:
  "handle_input (demo_caps low_sim) q_parcel demo_loaded = Inr (demo_unanswered, [])"
  "mode demo_unanswered = waiting_for_feedback"
  "feedback_count demo_unanswered = 0"
  "current_query demo_unanswered = Some q_parcel"
  "last_answer demo_unanswered = Some fallback_response"
  "resolve_in_state (demo_caps low_sim) q_parcel demo_unanswered = Inr fallback_response"
proof -
  have r: "resolve_in_state (demo_caps low_sim) q_parcel demo_loaded = Inr fallback_response"
    by (simp add: resolve_in_state_def demo_loaded_fields demo_find_parcel)
  note step = handle_input_query [OF demo_loaded_fields(1) r]
  have eq: "demo_unanswered =
              say (Bot, ustr ''Answer: '' @ fallback_response @ feedback_prompt)
                  (say (User, q_parcel)
                     (demo_loaded\<lparr>current_query := Some q_parcel, feedback_count := 0,
                         last_answer := Some fallback_response, mode := waiting_for_feedback\<rparr>))"
    using step by (simp add: demo_unanswered_def submit_def)
  from step show "handle_input (demo_caps low_sim) q_parcel demo_loaded = Inr (demo_unanswered, [])"
    by (simp add: eq)
  show "mode demo_unanswered = waiting_for_feedback" "feedback_count demo_unanswered = 0"
    "current_query demo_unanswered = Some q_parcel"
    "last_answer demo_unanswered = Some fallback_response"
    by (simp_all add: eq say_def)
  show "resolve_in_state (demo_caps low_sim) q_parcel demo_unanswered = Inr fallback_response"
    by (simp add: eq say_def resolve_in_state_def demo_loaded_fields demo_find_parcel)
qed

text \<open>
  Claim C7 fails in the branch for \<open>not helpful\<close> of \<open>handle_input\<close>. When a question
  matches nothing, the answer is the fallback sentence and no model is called, as the
  claim says (lemma \<open>handle_input_passes_fallback\<close>). When that answer is then called
  not helpful, the resolver returns the fallback sentence again, and this branch, which
  lacks the test of the other, calls the model with the fallback sentence as its
  context; the last answer becomes what the model extracts from that sentence.
\<close>

theorem not_helpful_calls_model_on_fallback:
  "handle_input (demo_caps low_sim) q_parcel demo_loaded = Inr (demo_unanswered, []) \<and>
   last_answer demo_unanswered = Some fallback_response \<and>
   resolve_in_state (demo_caps low_sim) q_parcel demo_unanswered = Inr fallback_response \<and>
   handle_input (demo_caps low_sim) (ustr ''not helpful'') demo_unanswered =
     Inr (demo_unanswered_refined,
          [(q_parcel @ ustr '' Please provide more detailed information with examples.'',
            fallback_response, None)]) \<and>
   last_answer demo_unanswered_refined = Some (take 8 fallback_response) \<and>
   take 8 fallback_response \<noteq> fallback_response"
proof -
  have lt: "feedback_count demo_unanswered < 2" by (simp add: demo_unanswered_step)
  have lo: "str_lower (demo_caps low_sim) (ustr ''not helpful'') = ustr ''not helpful''"
    by (simp add: demo_caps_sel ascii_lower_def ustr_def)
  note step = handle_input_not_helpful [OF demo_unanswered_step(2) lt lo demo_unanswered_step(4,6)]
  have eq: "demo_unanswered_refined =
              say (Bot, ustr ''Updated answer: '' @
                     qa_model (demo_caps low_sim) (q_parcel @ more_detail_suffix) fallback_response None @
                     feedback_prompt)
                ((say (User, str_lower (demo_caps low_sim) (ustr ''not helpful'')) demo_unanswered)
                   \<lparr>last_answer := Some (qa_model (demo_caps low_sim) (q_parcel @ more_detail_suffix)
                                          fallback_response None),
                    feedback_count := feedback_count demo_unanswered + 1\<rparr>)"
    using step by (simp add: demo_unanswered_refined_def submit_def)
  have h: "handle_input (demo_caps low_sim) (ustr ''not helpful'') demo_unanswered =
             Inr (demo_unanswered_refined, [(q_parcel @ more_detail_suffix, fallback_response, None)])"
    using step by (simp add: eq)
  have la: "last_answer demo_unanswered_refined = Some (take 8 fallback_response)"
    by (simp add: eq say_def demo_caps_sel)
  have ne: "take 8 fallback_response \<noteq> fallback_response"
    by (simp add: fallback_response_def ustr_def)
  from h la ne show ?thesis
    by (simp add: demo_unanswered_step more_detail_suffix_def)
qed

end
